theory Spec2Isabelle
  imports Complex_Main "HOL-Library.Signed_Division"
begin

section \<open>Data model\<close>

text \<open>
  The three enumerations of the program. \<open>Direction\<close> doubles as an index into the
  vectors of lanes and light states (\<open>NORTH = 0\<close>, ..., \<open>WEST = 3\<close>).
\<close>

datatype Direction = NORTH | EAST | SOUTH | WEST
datatype LightState = RED | YELLOW | GREEN
datatype PedestrianState = DONT_WALK | WALK

fun dir_index :: "Direction \<Rightarrow> nat" where
  "dir_index NORTH = 0"
| "dir_index EAST = 1"
| "dir_index SOUTH = 2"
| "dir_index WEST = 3"

text \<open>
  The only exception of the program is the \<open>std::runtime_error\<close> thrown by
  \<open>TrafficLane::processVehicle\<close> on an empty queue; the specification calls it
  \<open>EmptyQueue\<close>.
\<close>

datatype error = runtime_error string

definition EmptyQueue :: error where
  "EmptyQueue = runtime_error ''No vehicles to process''"

subsection \<open>Numbers and time\<close>

text \<open>
  C++ \<open>int\<close> values are embedded as mathematical integers: signed overflow is undefined
  behaviour in C++, and every quantity below (queue lengths, densities, seconds of waiting)
  stays far from the 32-bit bounds in any run of the program.

  A \<open>system_clock::time_point\<close> is the integer count of clock periods since the epoch.
  A reading of the clock is an explicit argument \<open>now\<close> of every function that consults
  it; all readings taken during one call are identified with that one instant.
  \<open>duration_cast<seconds>\<close> truncates towards zero, which is \<open>sdiv\<close>.
\<close>

definition ticks_per_second :: int where
  \<comment> \<open>\<open>system_clock::period\<close> is implementation-defined; nanoseconds as in libstdc++.\<close>
  "ticks_per_second = 1000000000"

text \<open>
  A \<open>double\<close> is embedded as the real number it denotes. Each floating-point operation
  rounds its exact result; the rounding function \<open>rnd\<close> is a parameter of every function
  that computes with doubles, and every result below holds for every \<open>rnd\<close>. Conversions
  from \<open>int\<close> and comparisons are exact.
\<close>

definition dmul :: "(real \<Rightarrow> real) \<Rightarrow> real \<Rightarrow> real \<Rightarrow> real" where
  "dmul rnd a b = rnd (a * b)"

definition ddiv :: "(real \<Rightarrow> real) \<Rightarrow> real \<Rightarrow> real \<Rightarrow> real" where
  "ddiv rnd a b = rnd (a / b)"

definition dadd :: "(real \<Rightarrow> real) \<Rightarrow> real \<Rightarrow> real \<Rightarrow> real" where
  "dadd rnd a b = rnd (a + b)"

definition std_clamp :: "int \<Rightarrow> int \<Rightarrow> int \<Rightarrow> int" where
  \<comment> \<open>\<open>std::clamp(v, lo, hi)\<close>: \<open>(v < lo) ? lo : (hi < v) ? hi : v\<close>\<close>
  "std_clamp v lo hi = (if v < lo then lo else if hi < v then hi else v)"

subsection \<open>Vehicle\<close>

text \<open>The field \<open>id\<close> is called \<open>id_v\<close> here, \<open>id\<close> being the identity function of HOL.\<close>

record Vehicle =
  id_v :: int
  emergency :: bool
  arrivalTime :: int

definition new_Vehicle :: "int \<Rightarrow> int \<Rightarrow> bool \<Rightarrow> Vehicle" where
  \<comment> \<open>the constructor stamps the vehicle with the clock reading \<open>now\<close>\<close>
  "new_Vehicle now vehicleId isEmergency =
     \<lparr>id_v = vehicleId, emergency = isEmergency, arrivalTime = now\<rparr>"

definition getId :: "Vehicle \<Rightarrow> int" where
  "getId v = id_v v"

definition isEmergencyVehicle :: "Vehicle \<Rightarrow> bool" where
  "isEmergencyVehicle v = emergency v"

definition getWaitingTime :: "int \<Rightarrow> Vehicle \<Rightarrow> int" where
  "getWaitingTime now v = (now - arrivalTime v) sdiv ticks_per_second"

subsection \<open>PedestrianSignal\<close>

record PedestrianSignal =
  state :: PedestrianState
  request :: bool

definition new_PedestrianSignal :: PedestrianSignal where
  "new_PedestrianSignal = \<lparr>state = DONT_WALK, request = False\<rparr>"

definition requestCrossing :: "PedestrianSignal \<Rightarrow> PedestrianSignal" where
  "requestCrossing p = p\<lparr>request := True\<rparr>"

definition grantCrossing :: "PedestrianSignal \<Rightarrow> PedestrianSignal" where
  "grantCrossing p = p\<lparr>state := WALK, request := False\<rparr>"

definition endCrossing :: "PedestrianSignal \<Rightarrow> PedestrianSignal" where
  "endCrossing p = p\<lparr>state := DONT_WALK\<rparr>"

definition isRequested :: "PedestrianSignal \<Rightarrow> bool" where
  "isRequested p = request p"

subsection \<open>TrafficLane\<close>

text \<open>
  The \<open>std::queue\<close> of a lane is the list of its vehicles, head first. One-line
  \<open>const\<close> accessors are functions of the lane; every other member function returns
  the lane it leaves behind next to its result. The two traversals copy the queue into a
  local \<open>temp\<close> and pop that copy; their loops return the final \<open>temp\<close> as well.
\<close>

record TrafficLane =
  direction :: Direction
  vehicles :: "Vehicle list"
  trafficDensity :: int

definition new_TrafficLane :: "Direction \<Rightarrow> TrafficLane" where
  "new_TrafficLane dir = \<lparr>direction = dir, vehicles = [], trafficDensity = 5\<rparr>"

definition addVehicle :: "Vehicle \<Rightarrow> TrafficLane \<Rightarrow> TrafficLane" where
  "addVehicle vehicle l = l\<lparr>vehicles := vehicles l @ [vehicle]\<rparr>"

definition hasVehicles :: "TrafficLane \<Rightarrow> bool" where
  "hasVehicles l = (vehicles l \<noteq> [])"

definition getQueueLength :: "TrafficLane \<Rightarrow> int" where
  "getQueueLength l = int (length (vehicles l))"

definition processVehicle :: "TrafficLane \<Rightarrow> (error + Vehicle) \<times> TrafficLane" where
  "processVehicle l =
     (case vehicles l of
        [] \<Rightarrow> (Inl EmptyQueue, l)
      | v # rest \<Rightarrow> (Inr v, l\<lparr>vehicles := rest\<rparr>))"

fun getTotalWaitTime_loop :: "int \<Rightarrow> int \<Rightarrow> Vehicle list \<Rightarrow> int \<times> Vehicle list" where
  "getTotalWaitTime_loop now tot [] = (tot, [])"
| "getTotalWaitTime_loop now tot (v # temp) =
     getTotalWaitTime_loop now (tot + getWaitingTime now v) temp"

definition getTotalWaitTime :: "int \<Rightarrow> TrafficLane \<Rightarrow> int \<times> TrafficLane" where
  "getTotalWaitTime now l =
     (let temp = vehicles l;
          (tot, temp') = getTotalWaitTime_loop now 0 temp
      in (tot, l))"

definition getAverageWaitTime :: "(real \<Rightarrow> real) \<Rightarrow> int \<Rightarrow> TrafficLane \<Rightarrow> real \<times> TrafficLane" where
  "getAverageWaitTime rnd now l =
     (if vehicles l = [] then (0, l)
      else let (tot, l') = getTotalWaitTime now l
           in (ddiv rnd (of_int tot) (of_nat (length (vehicles l'))), l'))"

definition getDirection :: "TrafficLane \<Rightarrow> Direction" where
  "getDirection l = direction l"

definition setTrafficDensity :: "int \<Rightarrow> TrafficLane \<Rightarrow> TrafficLane" where
  "setTrafficDensity d l = l\<lparr>trafficDensity := std_clamp d 0 10\<rparr>"

definition getTrafficDensity :: "TrafficLane \<Rightarrow> int" where
  "getTrafficDensity l = trafficDensity l"

fun hasEmergencyVehicle_loop :: "Vehicle list \<Rightarrow> bool \<times> Vehicle list" where
  "hasEmergencyVehicle_loop [] = (False, [])"
| "hasEmergencyVehicle_loop (v # temp) =
     (if isEmergencyVehicle v then (True, v # temp) else hasEmergencyVehicle_loop temp)"

definition hasEmergencyVehicle :: "TrafficLane \<Rightarrow> bool \<times> TrafficLane" where
  "hasEmergencyVehicle l =
     (let temp = vehicles l;
          (found, temp') = hasEmergencyVehicle_loop temp
      in (found, l))"

text \<open>
  A lane is driven from outside through its three mutators. \<open>runLane\<close> applies a
  sequence of such calls and collects what each \<open>processVehicle\<close> returned; a call that
  throws leaves the lane as it was.
\<close>

datatype LaneOp = AddVehicle Vehicle | ProcessVehicle | SetTrafficDensity int

fun runLane :: "LaneOp list \<Rightarrow> TrafficLane \<Rightarrow> (error + Vehicle) list \<times> TrafficLane" where
  "runLane [] l = ([], l)"
| "runLane (AddVehicle v # ops) l = runLane ops (addVehicle v l)"
| "runLane (ProcessVehicle # ops) l =
     (let (r, l') = processVehicle l;
          (rs, l'') = runLane ops l'
      in (r # rs, l''))"
| "runLane (SetTrafficDensity d # ops) l = runLane ops (setTrafficDensity d l)"

fun added :: "LaneOp list \<Rightarrow> Vehicle list" where
  "added [] = []"
| "added (AddVehicle v # ops) = v # added ops"
| "added (ProcessVehicle # ops) = added ops"
| "added (SetTrafficDensity d # ops) = added ops"

fun returned :: "(error + Vehicle) list \<Rightarrow> Vehicle list" where
  "returned [] = []"
| "returned (Inl e # rs) = returned rs"
| "returned (Inr v # rs) = v # returned rs"

subsection \<open>TrafficSignal\<close>

record TrafficSignal =
  lightStates :: "LightState list"
  currentGreenDirection :: int
  baseGreenTime :: int
  yellowTime :: int
  minGreenTime :: int
  maxGreenTime :: int

definition new_TrafficSignal :: TrafficSignal where
  "new_TrafficSignal =
     \<lparr>lightStates = replicate 4 RED, currentGreenDirection = - 1,
      baseGreenTime = 20, yellowTime = 3, minGreenTime = 10, maxGreenTime = 60\<rparr>"

text \<open>
  \<open>currentGreenDirection\<close> is an \<open>int\<close> with \<open>-1\<close> for "none". An index outside the
  vector would be undefined behaviour in C++ (\<open>xs[i := v]\<close> then leaves \<open>xs\<close> alone);
  \<open>signal_inv\<close> below shows that the index is always \<open>-1\<close> or one of the four
  directions.
\<close>

definition changeLight :: "Direction \<Rightarrow> TrafficSignal \<Rightarrow> TrafficSignal" where
  "changeLight newGreenDir s =
     (let ls = (if currentGreenDirection s \<ge> 0
                then (lightStates s)[nat (currentGreenDirection s) := RED]
                else lightStates s)
      in s\<lparr>lightStates := ls[dir_index newGreenDir := GREEN],
            currentGreenDirection := int (dir_index newGreenDir)\<rparr>)"

definition setYellow :: "TrafficSignal \<Rightarrow> TrafficSignal" where
  "setYellow s =
     (if currentGreenDirection s \<ge> 0
      then s\<lparr>lightStates := (lightStates s)[nat (currentGreenDirection s) := YELLOW]\<rparr>
      else s)"

definition getLightState :: "Direction \<Rightarrow> TrafficSignal \<Rightarrow> LightState" where
  "getLightState dir s = lightStates s ! dir_index dir"

definition getCurrentGreenDirection :: "TrafficSignal \<Rightarrow> int" where
  "getCurrentGreenDirection s = currentGreenDirection s"

definition getYellowTime :: "TrafficSignal \<Rightarrow> int" where
  "getYellowTime s = yellowTime s"

definition calculateAdaptiveGreenTime :: "TrafficSignal \<Rightarrow> TrafficLane \<Rightarrow> int" where
  "calculateAdaptiveGreenTime s lane =
     (let time = baseGreenTime s + getQueueLength lane * 2 + getTrafficDensity lane * 2
      in std_clamp time (minGreenTime s) (maxGreenTime s))"

text \<open>A signal is driven through its two mutators.\<close>

datatype SignalOp = ChangeLight Direction | SetYellow

fun applySignalOp :: "TrafficSignal \<Rightarrow> SignalOp \<Rightarrow> TrafficSignal" where
  "applySignalOp s (ChangeLight d) = changeLight d s"
| "applySignalOp s SetYellow = setYellow s"

definition runSignal :: "SignalOp list \<Rightarrow> TrafficSignal" where
  "runSignal ops = foldl applySignalOp new_TrafficSignal ops"

definition greens :: "TrafficSignal \<Rightarrow> nat" where
  \<comment> \<open>how many of the lights show Green\<close>
  "greens s = length (filter (\<lambda>x. x = GREEN) (lightStates s))"

subsection \<open>The observable trace of the signal\<close>

text \<open>
  What an observer at the intersection sees of a cycle, in program order: the light
  states that each call of \<open>setYellow\<close> and of \<open>changeLight\<close> leaves behind, and
  every blocking delay (\<open>std::this_thread::sleep_for\<close>). A delay is recorded with the
  duration the program asks for. Console output is not part of the trace.
\<close>

datatype duration = seconds int | milliseconds int

datatype Event = Lights "LightState list" | Sleep duration

fun lights_after :: "LightState list \<Rightarrow> Event list \<Rightarrow> LightState list" where
  \<comment> \<open>the light states shown once the events have happened, starting from \<open>ls\<close>\<close>
  "lights_after ls [] = ls"
| "lights_after ls (Lights ls' # es) = lights_after ls' es"
| "lights_after ls (Sleep d # es) = lights_after ls es"

subsection \<open>IntersectionController\<close>

text \<open>
  The Mersenne twister is the one collaborator that is not modelled: the results of its
  draws are an argument \<open>draws\<close>, the \<open>n\<close>-th draw of the run being \<open>draws n\<close>, and
  the field \<open>rng\<close> counts the draws made so far. A draw is not assumed to lie in the range
  of its distribution. \<open>displayQueueStatus\<close>, \<open>displayStats\<close> and
  \<open>directionToString\<close> only write to the console and are left out.
\<close>

record IntersectionController =
  lanes :: "TrafficLane list"
  pedestrianSignals :: "Direction \<rightharpoonup> PedestrianSignal"
  signal :: TrafficSignal
  rng :: nat
  vehicleCounter :: int
  totalVehiclesProcessed :: int
  totalWaitTime :: int
  cycleCounter :: int

definition new_IntersectionController :: IntersectionController where
  "new_IntersectionController =
     \<lparr>lanes = map new_TrafficLane [NORTH, EAST, SOUTH, WEST],
      pedestrianSignals =
        [NORTH \<mapsto> new_PedestrianSignal, EAST \<mapsto> new_PedestrianSignal,
         SOUTH \<mapsto> new_PedestrianSignal, WEST \<mapsto> new_PedestrianSignal],
      signal = new_TrafficSignal, rng = 0,
      vehicleCounter = 0, totalVehiclesProcessed = 0, totalWaitTime = 0, cycleCounter = 0\<rparr>"

definition lane_of :: "IntersectionController \<Rightarrow> Direction \<Rightarrow> TrafficLane" where
  \<comment> \<open>\<open>lanes[dir]\<close>\<close>
  "lane_of c dir = lanes c ! dir_index dir"

definition generateTraffic_lane ::
  "(nat \<Rightarrow> nat) \<Rightarrow> int \<Rightarrow> TrafficLane \<Rightarrow> nat \<times> int \<Rightarrow> TrafficLane \<times> nat \<times> int" where
  \<comment> \<open>one iteration of the loop over the lanes; the pair is \<open>(rng, vehicleCounter)\<close>\<close>
  "generateTraffic_lane draws now lane st =
     (let (r, vc) = st;
          (lane1, r1) = (if draws r = 0
                         then (setTrafficDensity (int (draws (r + 1) mod 11)) lane, r + 2)
                         else (lane, r + 1));
          arrivalThreshold = 10 - getTrafficDensity lane1
      in if int (draws r1) \<ge> arrivalThreshold
         then let isEmergency = (draws (r1 + 1) = 0)
              in (addVehicle (new_Vehicle now (vc + 1) isEmergency) lane1, r1 + 2, vc + 1)
         else (lane1, r1 + 1, vc))"

fun generateTraffic_lanes ::
  "(nat \<Rightarrow> nat) \<Rightarrow> int \<Rightarrow> TrafficLane list \<Rightarrow> nat \<times> int \<Rightarrow> TrafficLane list \<times> nat \<times> int" where
  "generateTraffic_lanes draws now [] st = ([], st)"
| "generateTraffic_lanes draws now (lane # rest) st =
     (let (lane', st') = generateTraffic_lane draws now lane st;
          (rest', st'') = generateTraffic_lanes draws now rest st'
      in (lane' # rest', st''))"

fun generateTraffic_peds ::
  "(nat \<Rightarrow> nat) \<Rightarrow> Direction list \<Rightarrow> (Direction \<rightharpoonup> PedestrianSignal) \<times> nat
     \<Rightarrow> (Direction \<rightharpoonup> PedestrianSignal) \<times> nat" where
  "generateTraffic_peds draws [] st = st"
| "generateTraffic_peds draws (dir # dirs) (m, r) =
     (case m dir of
        None \<Rightarrow> generateTraffic_peds draws dirs (m, r)
      | Some p \<Rightarrow>
          generateTraffic_peds draws dirs
            (if draws r = 0 then m(dir \<mapsto> requestCrossing p) else m, r + 1))"

definition generateTraffic ::
  "(nat \<Rightarrow> nat) \<Rightarrow> int \<Rightarrow> IntersectionController \<Rightarrow> IntersectionController" where
  "generateTraffic draws now c =
     (let (ls, r, vc) = generateTraffic_lanes draws now (lanes c) (rng c, vehicleCounter c);
          (m, r') = generateTraffic_peds draws [NORTH, EAST, SOUTH, WEST]
                      (pedestrianSignals c, r)
      in c\<lparr>lanes := ls, pedestrianSignals := m, rng := r', vehicleCounter := vc\<rparr>)"

text \<open>
  \<open>findNextGreenDirection\<close> is not a \<open>const\<close> member function, so it returns the
  controller next to the direction. Its two loops visit the lanes by reference: the lanes
  already visited are kept in \<open>seen\<close>, and each lane is put back as the call on it left it.
\<close>

fun emergencyLoop ::
  "TrafficLane list \<Rightarrow> TrafficLane list \<Rightarrow> Direction option \<times> TrafficLane list" where
  "emergencyLoop seen [] = (None, seen)"
| "emergencyLoop seen (lane # rest) =
     (let (found, lane') = hasEmergencyVehicle lane
      in if found then (Some (getDirection lane'), seen @ lane' # rest)
         else emergencyLoop (seen @ [lane']) rest)"

definition laneScore :: "(real \<Rightarrow> real) \<Rightarrow> int \<Rightarrow> TrafficLane \<Rightarrow> real \<times> TrafficLane" where
  \<comment> \<open>the expression that initialises \<open>score\<close>\<close>
  "laneScore rnd now lane =
     (let (avg, lane') = getAverageWaitTime rnd now lane
      in (dmul rnd (dmul rnd (of_int (getQueueLength lane')) avg)
            (dadd rnd 1 (ddiv rnd (of_int (getTrafficDensity lane')) 10)),
          lane'))"

fun scoreLoop ::
  "(real \<Rightarrow> real) \<Rightarrow> int \<Rightarrow> real \<times> Direction \<Rightarrow> TrafficLane list \<Rightarrow> TrafficLane list
     \<Rightarrow> (real \<times> Direction) \<times> TrafficLane list" where
  "scoreLoop rnd now (maxScore, best) seen [] = ((maxScore, best), seen)"
| "scoreLoop rnd now (maxScore, best) seen (lane # rest) =
     (if hasVehicles lane
      then let (score, lane') = laneScore rnd now lane
           in if score > maxScore
              then scoreLoop rnd now (score, getDirection lane') (seen @ [lane']) rest
              else scoreLoop rnd now (maxScore, best) (seen @ [lane']) rest
      else scoreLoop rnd now (maxScore, best) (seen @ [lane]) rest)"

definition findNextGreenDirection ::
  "(real \<Rightarrow> real) \<Rightarrow> int \<Rightarrow> IntersectionController \<Rightarrow> Direction \<times> IntersectionController" where
  "findNextGreenDirection rnd now c =
     (case emergencyLoop [] (lanes c) of
        (Some dir, ls) \<Rightarrow> (dir, c\<lparr>lanes := ls\<rparr>)
      | (None, ls) \<Rightarrow>
          (let ((maxScore, best), ls') = scoreLoop rnd now (- 1, NORTH) [] ls
           in (best, c\<lparr>lanes := ls'\<rparr>)))"

text \<open>
  \<open>processVehicles\<close> returns, next to the controller, the final value of \<open>passed\<close> and
  the vehicles it reported on the console, in the order of the reports. An exception
  escaping from \<open>processVehicle\<close> ends the call with \<open>Inl\<close>.
\<close>

function processVehicles_loop ::
  "int \<Rightarrow> Direction \<Rightarrow> int \<Rightarrow> int \<Rightarrow> Vehicle list \<Rightarrow> IntersectionController
     \<Rightarrow> error + int \<times> Vehicle list \<times> IntersectionController" where
  "processVehicles_loop now dir canPass passed out c =
     (if passed < canPass \<and> hasVehicles (lane_of c dir)
      then (case processVehicle (lane_of c dir) of
              (Inl e, lane') \<Rightarrow> Inl e
            | (Inr v, lane') \<Rightarrow>
                processVehicles_loop now dir canPass (passed + 1) (out @ [v])
                  (c\<lparr>lanes := (lanes c)[dir_index dir := lane'],
                     totalVehiclesProcessed := totalVehiclesProcessed c + 1,
                     totalWaitTime := totalWaitTime c + getWaitingTime now v\<rparr>))
      else Inr (passed, out, c))"
  by pat_completeness auto
termination
  by (relation "measure (\<lambda>(now, dir, canPass, passed, out, c). nat (canPass - passed))") auto

definition processVehicles ::
  "int \<Rightarrow> Direction \<Rightarrow> int \<Rightarrow> IntersectionController
     \<Rightarrow> error + int \<times> Vehicle list \<times> IntersectionController" where
  "processVehicles now dir greenTime c =
     (let canPass = greenTime sdiv 2
      in processVehicles_loop now dir canPass 0 [] c)"

text \<open>
  One cycle. The clock is read while traffic is generated (\<open>tGen\<close>), while the next
  direction is selected (\<open>tSel\<close>) and, after the delays, while the lane is drained
  (\<open>tDrain\<close>). \<open>pedestrianSignals[nextDir]\<close> is \<open>std::map::operator[]\<close>, which
  inserts a fresh signal under a missing key. The result is the trace of the cycle and
  the controller it leaves, or the exception that ended it.
\<close>

definition processCycle ::
  "(nat \<Rightarrow> nat) \<Rightarrow> (real \<Rightarrow> real) \<Rightarrow> int \<Rightarrow> int \<Rightarrow> int \<Rightarrow> IntersectionController
     \<Rightarrow> Event list \<times> (error + IntersectionController)" where
  "processCycle draws rnd tGen tSel tDrain c =
     (let c1 = c\<lparr>cycleCounter := cycleCounter c + 1\<rparr>;
          c2 = generateTraffic draws tGen c1;
          (nextDir, c3) = findNextGreenDirection rnd tSel c2;
          (ev1, c4) =
            (if getCurrentGreenDirection (signal c3) \<ge> 0
             then ([Lights (lightStates (setYellow (signal c3))),
                    Sleep (seconds (getYellowTime (signal c3)))],
                   c3\<lparr>signal := setYellow (signal c3)\<rparr>)
             else ([], c3));
          c5 = c4\<lparr>signal := changeLight nextDir (signal c4)\<rparr>;
          ev2 = [Lights (lightStates (signal c5))];
          greenTime = calculateAdaptiveGreenTime (signal c5) (lane_of c5 nextDir);
          ped = (case pedestrianSignals c5 nextDir of
                   None \<Rightarrow> new_PedestrianSignal | Some p \<Rightarrow> p);
          (ev3, c6) =
            (if isRequested ped
             then ([Sleep (seconds 3)],
                   c5\<lparr>pedestrianSignals :=
                        (pedestrianSignals c5)(nextDir \<mapsto> endCrossing (grantCrossing ped))\<rparr>)
             else ([], c5\<lparr>pedestrianSignals := (pedestrianSignals c5)(nextDir \<mapsto> ped)\<rparr>))
      in case processVehicles tDrain nextDir greenTime c6 of
           Inl e \<Rightarrow> (ev1 @ ev2 @ ev3, Inl e)
         | Inr (passed, out, c7) \<Rightarrow>
             (ev1 @ ev2 @ ev3 @ [Sleep (milliseconds 500)], Inr c7))"

text \<open>
  \<open>main\<close> runs the cycles one after the other; \<open>runCycles\<close> does so for a list of
  clock readings, one triple per cycle, and stops at the first exception.
\<close>

fun runCycles ::
  "(nat \<Rightarrow> nat) \<Rightarrow> (real \<Rightarrow> real) \<Rightarrow> (int \<times> int \<times> int) list \<Rightarrow> IntersectionController
     \<Rightarrow> Event list \<times> (error + IntersectionController)" where
  "runCycles draws rnd [] c = ([], Inr c)"
| "runCycles draws rnd ((tGen, tSel, tDrain) # ts) c =
     (case processCycle draws rnd tGen tSel tDrain c of
        (ev, Inl e) \<Rightarrow> (ev, Inl e)
      | (ev, Inr c') \<Rightarrow>
          (let (evs, r) = runCycles draws rnd ts c' in (ev @ evs, r)))"

subsection \<open>Invariants\<close>

text \<open>
  What the constructors establish and every member function keeps: the configuration
  constants of the signal, four light states, a green index that is \<open>-1\<close> or a
  direction, and no Green anywhere but at that index.
\<close>

definition signal_inv :: "TrafficSignal \<Rightarrow> bool" where
  "signal_inv s \<longleftrightarrow>
     length (lightStates s) = 4
     \<and> - 1 \<le> currentGreenDirection s \<and> currentGreenDirection s < 4
     \<and> (\<forall>i<4. lightStates s ! i = GREEN \<longrightarrow> int i = currentGreenDirection s)
     \<and> baseGreenTime s = 20 \<and> yellowTime s = 3
     \<and> minGreenTime s = 10 \<and> maxGreenTime s = 60"

definition lanes_inv :: "IntersectionController \<Rightarrow> bool" where
  \<comment> \<open>the constructor puts the lane of each direction at the index of that direction\<close>
  "lanes_inv c \<longleftrightarrow> map direction (lanes c) = [NORTH, EAST, SOUTH, WEST]"

subsection \<open>Notions used to state the properties\<close>

definition holds_emergency :: "TrafficLane \<Rightarrow> bool" where
  \<comment> \<open>the lane contains a vehicle with the emergency flag set\<close>
  "holds_emergency l \<longleftrightarrow> (\<exists>v \<in> set (vehicles l). emergency v)"

text \<open>
  The score in the words of the specification,
  \<open>queueLength * averageWaitTime * (1 + density / 10)\<close>, where the average is 0 for an
  empty queue and otherwise the sum of the waiting times divided by their number; every
  operation is one on doubles and rounds.
\<close>

definition claimed_score :: "(real \<Rightarrow> real) \<Rightarrow> int \<Rightarrow> TrafficLane \<Rightarrow> real" where
  "claimed_score rnd now l =
     rnd (rnd (real (length (vehicles l))
               * (if vehicles l = [] then 0
                  else rnd (real_of_int (sum_list (map (getWaitingTime now) (vehicles l)))
                            / real (length (vehicles l)))))
          * rnd (1 + rnd (real_of_int (trafficDensity l) / 10)))"

definition best_by_score ::
  "(real \<Rightarrow> real) \<Rightarrow> int \<Rightarrow> IntersectionController \<Rightarrow> Direction \<Rightarrow> bool" where
  \<comment> \<open>\<open>d\<close> has vehicles and the greatest score among the lanes with vehicles, and is the
      first such direction in the order North, East, South, West\<close>
  "best_by_score rnd now c d \<longleftrightarrow>
     hasVehicles (lane_of c d)
     \<and> (\<forall>d'. hasVehicles (lane_of c d') \<longrightarrow>
            claimed_score rnd now (lane_of c d') \<le> claimed_score rnd now (lane_of c d)
            \<and> (dir_index d' < dir_index d \<longrightarrow>
                 claimed_score rnd now (lane_of c d') < claimed_score rnd now (lane_of c d)))"

definition selected ::
  "(nat \<Rightarrow> nat) \<Rightarrow> (real \<Rightarrow> real) \<Rightarrow> int \<Rightarrow> int \<Rightarrow> IntersectionController \<Rightarrow> Direction" where
  \<comment> \<open>the direction that a cycle starting in \<open>c\<close> selects\<close>
  "selected draws rnd tGen tSel c =
     fst (findNextGreenDirection rnd tSel
            (generateTraffic draws tGen (c\<lparr>cycleCounter := cycleCounter c + 1\<rparr>)))"

definition red_after_yellow_hold :: "LightState list \<Rightarrow> Event list \<Rightarrow> bool" where
  \<comment> \<open>whenever an event turns the light of a direction from another colour to Red, the
      event before it is a delay of 3 seconds during which that light showed Yellow, and
      the light was Green until the event before the delay\<close>
  "red_after_yellow_hold init evs \<longleftrightarrow>
     (\<forall>i d. i < length evs
          \<and> lights_after init (take i evs) ! dir_index d \<noteq> RED
          \<and> lights_after init (take (Suc i) evs) ! dir_index d = RED \<longrightarrow>
        2 \<le> i \<and> evs ! (i - 1) = Sleep (seconds 3)
        \<and> lights_after init (take (i - 1) evs) ! dir_index d = YELLOW
        \<and> lights_after init (take (i - 2) evs) ! dir_index d = GREEN)"

definition cycle_signal_inv :: "TrafficSignal \<Rightarrow> bool" where
  \<comment> \<open>the signal between two cycles: all lights Red before the first cycle, afterwards
      the current green direction Green and the others Red\<close>
  "cycle_signal_inv s \<longleftrightarrow>
     yellowTime s = 3
     \<and> (currentGreenDirection s = - 1 \<and> lightStates s = replicate 4 RED
        \<or> (\<exists>g. currentGreenDirection s = int (dir_index g)
               \<and> lightStates s = (replicate 4 RED)[dir_index g := GREEN]))"

subsection \<open>Example states\<close>

text \<open>
  Scenario A of the specification: at the clock reading \<open>10 * ticks_per_second\<close> the
  three vehicles of the North lane have waited 4, 10 and 2 seconds; density 5; the other
  lanes are empty.
\<close>

definition scenarioA :: IntersectionController where
  "scenarioA = new_IntersectionController
     \<lparr>lanes :=
        [(new_TrafficLane NORTH)
           \<lparr>vehicles := [new_Vehicle (6 * ticks_per_second) 1 False,
                         new_Vehicle 0 2 False,
                         new_Vehicle (8 * ticks_per_second) 3 False]\<rparr>,
         new_TrafficLane EAST, new_TrafficLane SOUTH, new_TrafficLane WEST]\<rparr>"

text \<open>Scenario B: two ordinary vehicles wait in the North lane, an emergency vehicle in the East lane.\<close>

definition scenarioB :: IntersectionController where
  "scenarioB = new_IntersectionController
     \<lparr>lanes :=
        [(new_TrafficLane NORTH)
           \<lparr>vehicles := [new_Vehicle 0 1 False, new_Vehicle 0 2 False]\<rparr>,
         (new_TrafficLane EAST)
           \<lparr>vehicles := [new_Vehicle (9 * ticks_per_second) 3 True]\<rparr>,
         new_TrafficLane SOUTH, new_TrafficLane WEST]\<rparr>"

section \<open>Lanes\<close>

lemma getTotalWaitTime_loop_sum:
  "getTotalWaitTime_loop now tot q = (tot + sum_list (map (getWaitingTime now) q), [])"
  by (induction q arbitrary: tot) simp_all

lemma getTotalWaitTime_eq:
  "getTotalWaitTime now l = (sum_list (map (getWaitingTime now) (vehicles l)), l)"
  by (simp add: getTotalWaitTime_def getTotalWaitTime_loop_sum)

lemma getAverageWaitTime_eq:
  "getAverageWaitTime rnd now l =
     (if vehicles l = [] then 0
      else rnd (real_of_int (sum_list (map (getWaitingTime now) (vehicles l)))
                / real (length (vehicles l))),
      l)"
  by (simp add: getAverageWaitTime_def getTotalWaitTime_eq ddiv_def)

lemma hasEmergencyVehicle_loop_fst:
  "fst (hasEmergencyVehicle_loop q) = (\<exists>v \<in> set q. emergency v)"
  by (induction q) (simp_all add: isEmergencyVehicle_def)

lemma hasEmergencyVehicle_eq:
  "hasEmergencyVehicle l = ((\<exists>v \<in> set (vehicles l). emergency v), l)"
  using hasEmergencyVehicle_loop_fst [of "vehicles l"]
  by (auto simp: hasEmergencyVehicle_def split: prod.splits)

lemma runLane_fifo:
  "returned (fst (runLane ops l)) @ vehicles (snd (runLane ops l)) = vehicles l @ added ops"
proof (induction ops l rule: runLane.induct)
  case (3 ops l)
  then show ?case
    by (cases "vehicles l") (auto simp: processVehicle_def split: prod.splits)
qed (simp_all add: addVehicle_def setTrafficDensity_def)

lemma runLane_density:
  "0 \<le> trafficDensity l \<Longrightarrow> trafficDensity l \<le> 10 \<Longrightarrow>
   0 \<le> trafficDensity (snd (runLane ops l)) \<and> trafficDensity (snd (runLane ops l)) \<le> 10"
proof (induction ops l rule: runLane.induct)
  case (3 ops l)
  then show ?case
    by (cases "vehicles l") (auto simp: processVehicle_def split: prod.splits)
qed (simp_all add: addVehicle_def setTrafficDensity_def std_clamp_def)

text \<open>
  Claim C7. The density of a lane is always in \<open>[0, 10]\<close>: \<open>setTrafficDensity d\<close>
  stores \<open>d\<close> clamped to \<open>[0, 10]\<close> for every integer \<open>d\<close>, a new lane has density 5,
  \<open>addVehicle\<close> and \<open>processVehicle\<close> leave the density alone, and so the density is in
  range after any sequence of calls on a new lane.
\<close>

theorem density_always_in_range:
  "trafficDensity (setTrafficDensity d l) = max 0 (min 10 d)
   \<and> trafficDensity (new_TrafficLane dir) = 5
   \<and> trafficDensity (addVehicle v l) = trafficDensity l
   \<and> trafficDensity (snd (processVehicle l)) = trafficDensity l
   \<and> 0 \<le> trafficDensity (snd (runLane ops (new_TrafficLane dir)))
   \<and> trafficDensity (snd (runLane ops (new_TrafficLane dir))) \<le> 10"
  using runLane_density [of "new_TrafficLane dir" ops]
  by (simp add: setTrafficDensity_def std_clamp_def new_TrafficLane_def addVehicle_def
      processVehicle_def split: list.splits)

text \<open>
  Claim C8. \<open>getAverageWaitTime\<close> returns 0 on an empty queue and otherwise the sum of
  the waiting times of the vehicles now in the queue divided (as a \<open>double\<close>) by their
  number; the traversal empties its copy \<open>temp\<close> and leaves the lane, hence the queue
  with its vehicles and their order, as it was.
\<close>

theorem averageWaitTime_is_mean_and_keeps_queue:
  "fst (getAverageWaitTime rnd now l) =
     (if vehicles l = [] then 0
      else rnd (real_of_int (sum_list (map (getWaitingTime now) (vehicles l)))
                / real (length (vehicles l))))
   \<and> snd (getAverageWaitTime rnd now l) = l
   \<and> vehicles (snd (getAverageWaitTime rnd now l)) = vehicles l
   \<and> getTotalWaitTime now l = (sum_list (map (getWaitingTime now) (vehicles l)), l)
   \<and> snd (getTotalWaitTime_loop now 0 (vehicles l)) = []"
  by (simp add: getAverageWaitTime_eq getTotalWaitTime_eq getTotalWaitTime_loop_sum)

text \<open>
  Claim C9. Vehicles leave a lane in the order of their arrival: \<open>addVehicle\<close> appends at
  the tail, \<open>processVehicle\<close> removes and returns the head, and on a lane without vehicles
  it fails with \<open>EmptyQueue\<close> and leaves the lane as it was. Over any sequence of calls,
  the vehicles returned so far followed by those still queued are the vehicles initially
  queued followed by those added, in that order.
\<close>

theorem lane_is_fifo:
  "vehicles (addVehicle v l) = vehicles l @ [v]
   \<and> processVehicle l =
       (if vehicles l = [] then (Inl EmptyQueue, l)
        else (Inr (hd (vehicles l)), l\<lparr>vehicles := tl (vehicles l)\<rparr>))
   \<and> returned (fst (runLane ops l)) @ vehicles (snd (runLane ops l)) = vehicles l @ added ops"
  by (simp add: addVehicle_def processVehicle_def runLane_fifo split: list.splits)

section \<open>The signal\<close>

lemma dir_index_less: "dir_index d < 4"
  by (cases d) simp_all

lemma no_green_filter: "GREEN \<notin> set ls \<Longrightarrow> filter (\<lambda>x. x = GREEN) ls = []"
  by (induction ls) auto

lemma no_green_after_update:
  "GREEN \<notin> set ls \<Longrightarrow> length (filter (\<lambda>x. x = GREEN) (ls[d := x])) \<le> 1"
proof (induction ls arbitrary: d)
  case Nil
  then show ?case by simp
next
  case (Cons a ls)
  then show ?case by (cases d) (auto simp: no_green_filter)
qed

lemma one_green_after_update:
  "GREEN \<notin> set ls \<Longrightarrow> d < length ls \<Longrightarrow> length (filter (\<lambda>x. x = GREEN) (ls[d := GREEN])) = 1"
proof (induction ls arbitrary: d)
  case Nil
  then show ?case by simp
next
  case (Cons a ls)
  then show ?case by (cases d) (auto simp: no_green_filter)
qed

lemma green_only_at:
  assumes "\<forall>i<length ls. ls ! i = GREEN \<longrightarrow> i = k" and "x \<noteq> GREEN"
  shows "GREEN \<notin> set (ls[k := x])"
proof
  assume "GREEN \<in> set (ls[k := x])"
  then obtain i where i: "i < length ls" "ls[k := x] ! i = GREEN"
    by (auto simp: in_set_conv_nth)
  show False
  proof (cases "i = k")
    case True
    with i assms(2) show False by simp
  next
    case False
    with i have "ls ! i = GREEN" by simp
    with assms(1) i(1) False show False by blast
  qed
qed

lemma green_nowhere:
  assumes "\<forall>i<length ls. ls ! i = GREEN \<longrightarrow> int i = k" and "k < 0"
  shows "GREEN \<notin> set ls"
  using assms by (auto simp: in_set_conv_nth)

lemma signal_inv_new: "signal_inv new_TrafficSignal"
  by (simp add: signal_inv_def new_TrafficSignal_def)

lemma signal_inv_greens_le:
  assumes "signal_inv s"
  shows "greens s \<le> 1"
proof (cases "currentGreenDirection s < 0")
  case True
  with assms have "GREEN \<notin> set (lightStates s)"
    using green_nowhere [of "lightStates s" "currentGreenDirection s"]
    by (simp add: signal_inv_def)
  then show ?thesis by (simp add: greens_def no_green_filter)
next
  case False
  define k where "k = nat (currentGreenDirection s)"
  from False assms have "\<forall>i<length (lightStates s). lightStates s ! i = GREEN \<longrightarrow> i = k"
    by (auto simp: signal_inv_def k_def)
  then have "GREEN \<notin> set ((lightStates s)[k := RED])"
    by (rule green_only_at) simp
  then have "length (filter (\<lambda>x. x = GREEN) (((lightStates s)[k := RED])[k := lightStates s ! k])) \<le> 1"
    by (rule no_green_after_update)
  then show ?thesis by (simp add: greens_def)
qed

lemma changeLight_no_green:
  assumes "signal_inv s"
  shows "GREEN \<notin> set (if currentGreenDirection s \<ge> 0
                then (lightStates s)[nat (currentGreenDirection s) := RED]
                else lightStates s)"
proof (cases "currentGreenDirection s < 0")
  case True
  with assms show ?thesis
    using green_nowhere [of "lightStates s" "currentGreenDirection s"]
    by (simp add: signal_inv_def)
next
  case False
  from False assms
  have "\<forall>i<length (lightStates s). lightStates s ! i = GREEN \<longrightarrow> i = nat (currentGreenDirection s)"
    by (auto simp: signal_inv_def)
  then have "GREEN \<notin> set ((lightStates s)[nat (currentGreenDirection s) := RED])"
    by (rule green_only_at) simp
  with False show ?thesis by simp
qed

lemma changeLight_greens:
  assumes "signal_inv s"
  shows "greens (changeLight d s) = 1"
proof -
  let ?ls = "if currentGreenDirection s \<ge> 0
             then (lightStates s)[nat (currentGreenDirection s) := RED]
             else lightStates s"
  have "GREEN \<notin> set ?ls" using assms by (rule changeLight_no_green)
  moreover have "dir_index d < length ?ls"
    using assms dir_index_less [of d] by (simp add: signal_inv_def)
  ultimately have "length (filter (\<lambda>x. x = GREEN) (?ls[dir_index d := GREEN])) = 1"
    by (rule one_green_after_update)
  then show ?thesis by (simp add: greens_def changeLight_def Let_def)
qed

lemma signal_inv_changeLight:
  assumes "signal_inv s"
  shows "signal_inv (changeLight d s)"
proof -
  let ?ls = "if currentGreenDirection s \<ge> 0
             then (lightStates s)[nat (currentGreenDirection s) := RED]
             else lightStates s"
  have ng: "GREEN \<notin> set ?ls" using assms by (rule changeLight_no_green)
  have len: "length ?ls = 4" using assms by (simp add: signal_inv_def)
  have "\<forall>i<4. ?ls[dir_index d := GREEN] ! i = GREEN \<longrightarrow> i = dir_index d"
  proof (intro allI impI)
    fix i assume i: "i < (4::nat)" and g: "?ls[dir_index d := GREEN] ! i = GREEN"
    show "i = dir_index d"
    proof (rule ccontr)
      assume "i \<noteq> dir_index d"
      with g have "?ls ! i = GREEN" by simp
      with i len have "GREEN \<in> set ?ls" by (metis nth_mem)
      with ng show False by contradiction
    qed
  qed
  with assms len dir_index_less [of d] show ?thesis
    by (simp add: signal_inv_def changeLight_def Let_def)
qed

lemma signal_inv_setYellow:
  assumes "signal_inv s"
  shows "signal_inv (setYellow s)"
proof (cases "currentGreenDirection s \<ge> 0")
  case False
  with assms show ?thesis by (simp add: setYellow_def)
next
  case True
  have "\<forall>i<4. (lightStates s)[nat (currentGreenDirection s) := YELLOW] ! i = GREEN
          \<longrightarrow> int i = currentGreenDirection s"
  proof (intro allI impI)
    fix i assume i: "i < (4::nat)"
      and g: "(lightStates s)[nat (currentGreenDirection s) := YELLOW] ! i = GREEN"
    from assms i have il: "i < length (lightStates s)" by (simp add: signal_inv_def)
    show "int i = currentGreenDirection s"
    proof (cases "i = nat (currentGreenDirection s)")
      case True
      with g il show ?thesis by simp
    next
      case False
      with g have "lightStates s ! i = GREEN" by simp
      with assms i show ?thesis by (simp add: signal_inv_def)
    qed
  qed
  with assms True show ?thesis by (simp add: signal_inv_def setYellow_def)
qed

lemma signal_inv_foldl: "signal_inv s \<Longrightarrow> signal_inv (foldl applySignalOp s ops)"
proof (induction ops arbitrary: s)
  case Nil
  then show ?case by simp
next
  case (Cons x ops)
  then show ?case
    by (cases x) (simp_all add: signal_inv_changeLight signal_inv_setYellow)
qed

lemma signal_inv_runSignal: "signal_inv (runSignal ops)"
  unfolding runSignal_def by (rule signal_inv_foldl) (rule signal_inv_new)

text \<open>
  Claim C3. With the constants 20, 3, 10 and 60 that the constructor gives
  \<open>baseGreenTime\<close>, \<open>yellowTime\<close>, \<open>minGreenTime\<close> and \<open>maxGreenTime\<close> (and that no
  member function changes), \<open>calculateAdaptiveGreenTime\<close> is
  \<open>20 + 2 * queueLength + 2 * density\<close> clamped to \<open>[10, 60]\<close> for every lane, so it
  lies between 10 and 60.
\<close>

theorem adaptive_green_time_clamped:
  "calculateAdaptiveGreenTime (runSignal ops) lane =
     max 10 (min 60 (20 + 2 * getQueueLength lane + 2 * getTrafficDensity lane))
   \<and> 10 \<le> calculateAdaptiveGreenTime (runSignal ops) lane
   \<and> calculateAdaptiveGreenTime (runSignal ops) lane \<le> 60
   \<and> baseGreenTime (runSignal ops) = 20 \<and> yellowTime (runSignal ops) = 3
   \<and> minGreenTime (runSignal ops) = 10 \<and> maxGreenTime (runSignal ops) = 60"
  using signal_inv_runSignal [of ops]
  by (simp add: signal_inv_def calculateAdaptiveGreenTime_def std_clamp_def Let_def)

text \<open>
  Claim C5. In every state that the signal reaches from its initial all-Red state by
  calls of \<open>changeLight\<close> and \<open>setYellow\<close>, at most one light is Green, and after a
  further call of \<open>changeLight\<close> exactly one is.
\<close>

theorem one_green_light:
  "greens (changeLight d (runSignal ops)) = 1 \<and> greens (runSignal ops) \<le> 1"
  using signal_inv_runSignal [of ops] changeLight_greens [of "runSignal ops" d]
    signal_inv_greens_le [of "runSignal ops"] by simp

section \<open>Selecting the next green direction\<close>

lemmas example_defs =
  new_IntersectionController_def new_TrafficLane_def new_Vehicle_def new_TrafficSignal_def new_PedestrianSignal_def
  lane_of_def lanes_inv_def holds_emergency_def hasVehicles_def

lemmas eval_defs =
  findNextGreenDirection_def hasEmergencyVehicle_eq laneScore_def getAverageWaitTime_eq
  getWaitingTime_def ticks_per_second_def signed_divide_int_def dmul_def dadd_def ddiv_def
  getQueueLength_def getTrafficDensity_def getDirection_def

lemma all_Direction: "(\<forall>d. P d) \<longleftrightarrow> P NORTH \<and> P EAST \<and> P SOUTH \<and> P WEST"
proof
  assume r: "P NORTH \<and> P EAST \<and> P SOUTH \<and> P WEST"
  show "\<forall>d. P d"
  proof
    fix d show "P d" using r by (cases d) simp_all
  qed
qed simp

lemma lanes_inv_new: "lanes_inv new_IntersectionController"
  by (simp add: lanes_inv_def new_IntersectionController_def new_TrafficLane_def)

lemma lanes_inv_nth:
  assumes "lanes_inv c"
  shows "length (lanes c) = 4" and "direction (lane_of c d) = d"
proof -
  from assms have m: "map direction (lanes c) = [NORTH, EAST, SOUTH, WEST]"
    by (simp add: lanes_inv_def)
  from arg_cong [OF m, of length] show len: "length (lanes c) = 4" by simp
  have "direction (lanes c ! dir_index d) = map direction (lanes c) ! dir_index d"
    using len dir_index_less [of d] by simp
  then show "direction (lane_of c d) = d"
    unfolding m lane_of_def by (cases d) simp_all
qed

lemma lanes_inv_set:
  assumes "lanes_inv c" and "i < length (lanes c)"
  shows "\<exists>d. dir_index d = i \<and> lanes c ! i = lane_of c d"
proof -
  from assms lanes_inv_nth(1) [OF assms(1)] have "i < 4" by simp
  then have "i = 0 \<or> i = 1 \<or> i = 2 \<or> i = 3" by arith
  then have "\<exists>d. dir_index d = i"
    by (metis dir_index.simps)
  then show ?thesis by (auto simp: lane_of_def)
qed

lemma lane_of_in_set:
  assumes "lanes_inv c"
  shows "lane_of c d \<in> set (lanes c)"
  using lanes_inv_nth(1) [OF assms] dir_index_less [of d] by (simp add: lane_of_def)

lemma laneScore_snd: "snd (laneScore rnd now l) = l"
  by (simp add: laneScore_def getAverageWaitTime_eq)

lemma emergencyLoop_snd: "snd (emergencyLoop seen rest) = seen @ rest"
  by (induction rest arbitrary: seen) (simp_all add: hasEmergencyVehicle_eq)

lemma scoreLoop_snd: "snd (scoreLoop rnd now mb seen rest) = seen @ rest"
proof (induction rest arbitrary: mb seen)
  case Nil
  then show ?case by (cases mb) simp
next
  case (Cons lane rest)
  show ?case
    using Cons.IH laneScore_snd [of rnd now lane]
    by (cases mb) (simp add: split_beta getDirection_def)
qed

lemma findNextGreenDirection_snd: "snd (findNextGreenDirection rnd now c) = c"
proof -
  obtain r ls where e: "emergencyLoop [] (lanes c) = (r, ls)" by fastforce
  with emergencyLoop_snd [of "[]" "lanes c"] have ls: "ls = lanes c" by simp
  have "snd (scoreLoop rnd now (- 1, NORTH) [] (lanes c)) = lanes c"
    by (simp add: scoreLoop_snd)
  with e ls show ?thesis
    by (cases r) (simp_all add: findNextGreenDirection_def split_beta)
qed

lemma findNextGreenDirection_pair:
  "findNextGreenDirection rnd now c = (fst (findNextGreenDirection rnd now c), c)"
  using findNextGreenDirection_snd [of rnd now c] by (simp add: prod_eq_iff)

text \<open>
  Claim C10. \<open>findNextGreenDirection\<close> is read-only: the controller it leaves is the
  controller it was called on, with the same lanes (queues and densities), pedestrian
  signals, traffic signal (light states and \<open>currentGreenDirection\<close>) and counters.
\<close>

theorem findNextGreenDirection_read_only:
  "snd (findNextGreenDirection rnd now c) = c
   \<and> lanes (snd (findNextGreenDirection rnd now c)) = lanes c
   \<and> pedestrianSignals (snd (findNextGreenDirection rnd now c)) = pedestrianSignals c
   \<and> signal (snd (findNextGreenDirection rnd now c)) = signal c
   \<and> vehicleCounter (snd (findNextGreenDirection rnd now c)) = vehicleCounter c
   \<and> totalVehiclesProcessed (snd (findNextGreenDirection rnd now c)) = totalVehiclesProcessed c
   \<and> totalWaitTime (snd (findNextGreenDirection rnd now c)) = totalWaitTime c
   \<and> cycleCounter (snd (findNextGreenDirection rnd now c)) = cycleCounter c"
  by (simp add: findNextGreenDirection_snd)

subsection \<open>Emergency preemption\<close>

lemma emergencyLoop_fst:
  "(fst (emergencyLoop seen rest) = None \<and> (\<forall>l \<in> set rest. \<not> holds_emergency l))
   \<or> (\<exists>i<length rest. holds_emergency (rest ! i)
         \<and> fst (emergencyLoop seen rest) = Some (direction (rest ! i))
         \<and> (\<forall>j<i. \<not> holds_emergency (rest ! j)))"
proof (induction rest arbitrary: seen)
  case Nil
  then show ?case by simp
next
  case (Cons lane rest)
  show ?case
  proof (cases "holds_emergency lane")
    case True
    then have "fst (emergencyLoop seen (lane # rest)) = Some (direction lane)"
      by (simp add: hasEmergencyVehicle_eq holds_emergency_def getDirection_def)
    with True have "0 < length (lane # rest) \<and> holds_emergency ((lane # rest) ! 0)
         \<and> fst (emergencyLoop seen (lane # rest)) = Some (direction ((lane # rest) ! 0))
         \<and> (\<forall>j<0. \<not> holds_emergency ((lane # rest) ! j))"
      by simp
    then show ?thesis by blast
  next
    case False
    then have step: "emergencyLoop seen (lane # rest) = emergencyLoop (seen @ [lane]) rest"
      by (simp add: hasEmergencyVehicle_eq holds_emergency_def)
    from Cons.IH [of "seen @ [lane]"] show ?thesis
    proof
      assume "fst (emergencyLoop (seen @ [lane]) rest) = None
              \<and> (\<forall>l \<in> set rest. \<not> holds_emergency l)"
      with False step show ?thesis by simp
    next
      assume "\<exists>i<length rest. holds_emergency (rest ! i)
         \<and> fst (emergencyLoop (seen @ [lane]) rest) = Some (direction (rest ! i))
         \<and> (\<forall>j<i. \<not> holds_emergency (rest ! j))"
      then obtain i where i: "i < length rest" "holds_emergency (rest ! i)"
        "fst (emergencyLoop (seen @ [lane]) rest) = Some (direction (rest ! i))"
        "\<forall>j<i. \<not> holds_emergency (rest ! j)" by blast
      have "\<forall>j<Suc i. \<not> holds_emergency ((lane # rest) ! j)"
        using False i(4) by (auto simp: less_Suc_eq_0_disj)
      with i step have "Suc i < length (lane # rest) \<and> holds_emergency ((lane # rest) ! Suc i)
         \<and> fst (emergencyLoop seen (lane # rest)) = Some (direction ((lane # rest) ! Suc i))
         \<and> (\<forall>j<Suc i. \<not> holds_emergency ((lane # rest) ! j))"
        by simp
      then show ?thesis by blast
    qed
  qed
qed

lemma findNextGreenDirection_fst_Some:
  assumes "fst (emergencyLoop [] (lanes c)) = Some d"
  shows "fst (findNextGreenDirection rnd now c) = d"
proof (cases "emergencyLoop [] (lanes c)")
  case (Pair a b)
  with assms show ?thesis by (simp add: findNextGreenDirection_def)
qed

lemma findNextGreenDirection_fst_None:
  assumes "fst (emergencyLoop [] (lanes c)) = None"
  shows "fst (findNextGreenDirection rnd now c) =
           snd (fst (scoreLoop rnd now (- 1, NORTH) [] (lanes c)))"
proof (cases "emergencyLoop [] (lanes c)")
  case (Pair a b)
  with emergencyLoop_snd [of "[]" "lanes c"] have "b = lanes c" by simp
  with Pair assms show ?thesis by (simp add: findNextGreenDirection_def split_beta)
qed

text \<open>
  Claim C1. Whenever some lane holds a vehicle with the emergency flag,
  \<open>findNextGreenDirection\<close> returns the direction of the first such lane in the order
  North, East, South, West: the lane of the returned direction holds an emergency
  vehicle and no lane of an earlier direction does. Scores, clock and queue contents play
  no part.
\<close>

theorem emergency_lane_preempts:
  assumes "lanes_inv c" and "\<exists>d. holds_emergency (lane_of c d)"
  shows "holds_emergency (lane_of c (fst (findNextGreenDirection rnd now c)))
    \<and> (\<forall>d'. dir_index d' < dir_index (fst (findNextGreenDirection rnd now c))
           \<longrightarrow> \<not> holds_emergency (lane_of c d'))"
proof -
  from assms(2) obtain d0 where d0: "holds_emergency (lane_of c d0)" by blast
  with lane_of_in_set [OF assms(1), of d0]
  have "\<not> (\<forall>l \<in> set (lanes c). \<not> holds_emergency l)" by blast
  with emergencyLoop_fst [of "[]" "lanes c"]
  obtain i where i: "i < length (lanes c)" "holds_emergency (lanes c ! i)"
    "fst (emergencyLoop [] (lanes c)) = Some (direction (lanes c ! i))"
    "\<forall>j<i. \<not> holds_emergency (lanes c ! j)" by blast
  from lanes_inv_set [OF assms(1) i(1)]
  obtain d where d: "dir_index d = i" "lanes c ! i = lane_of c d" by blast
  from i(3) d lanes_inv_nth(2) [OF assms(1), of d]
  have "fst (emergencyLoop [] (lanes c)) = Some d" by simp
  then have "fst (findNextGreenDirection rnd now c) = d"
    by (rule findNextGreenDirection_fst_Some)
  moreover have "holds_emergency (lane_of c d)" using i(2) d by simp
  moreover have "\<forall>d'. dir_index d' < dir_index d \<longrightarrow> \<not> holds_emergency (lane_of c d')"
    using i(4) d(1) by (simp add: lane_of_def)
  ultimately show ?thesis by simp
qed

theorem emergency_lane_preempts_witness:
  "lanes_inv scenarioB \<and> holds_emergency (lane_of scenarioB EAST)
   \<and> \<not> holds_emergency (lane_of scenarioB NORTH)
   \<and> fst (findNextGreenDirection id 0 scenarioB) = EAST
   \<and> holds_emergency (lane_of scenarioB (fst (findNextGreenDirection id 0 scenarioB)))"
proof -
  have h1: "lanes_inv scenarioB" by (simp add: scenarioB_def example_defs)
  have h2: "\<exists>d. holds_emergency (lane_of scenarioB d)"
    by (rule exI [of _ EAST]) (simp add: scenarioB_def example_defs)
  from emergency_lane_preempts [OF h1 h2, of id 0] h1 show ?thesis
    by (simp add: scenarioB_def example_defs eval_defs)
qed

subsection \<open>Selection by score\<close>

lemma scoreLoop_fst:
  fixes rnd now
  defines "sc \<equiv> \<lambda>l. fst (laneScore rnd now l)"
  shows "\<exists>m' b'. fst (scoreLoop rnd now (m, b) seen rest) = (m', b')
     \<and> m \<le> m' \<and> (\<forall>l \<in> set rest. hasVehicles l \<longrightarrow> sc l \<le> m')
     \<and> ((m' = m \<and> b' = b)
        \<or> (\<exists>i<length rest. hasVehicles (rest ! i) \<and> sc (rest ! i) = m'
              \<and> b' = direction (rest ! i) \<and> m < m'
              \<and> (\<forall>j<i. hasVehicles (rest ! j) \<longrightarrow> sc (rest ! j) < m')))"
proof (induction rest arbitrary: m b seen)
  case Nil
  then show ?case by simp
next
  case (Cons lane rest)
  have ls: "laneScore rnd now lane = (sc lane, lane)"
    using laneScore_snd [of rnd now lane] by (simp add: sc_def prod_eq_iff)
  show ?case
  proof (cases "hasVehicles lane \<and> sc lane > m")
    case True
    then have step: "scoreLoop rnd now (m, b) seen (lane # rest) =
        scoreLoop rnd now (sc lane, direction lane) (seen @ [lane]) rest"
      by (simp add: ls getDirection_def)
    from Cons.IH [of "sc lane" "direction lane" "seen @ [lane]"]
    obtain m' b' where r: "fst (scoreLoop rnd now (sc lane, direction lane) (seen @ [lane]) rest) = (m', b')"
      and le: "sc lane \<le> m'" and ub: "\<forall>l \<in> set rest. hasVehicles l \<longrightarrow> sc l \<le> m'"
      and alt: "(m' = sc lane \<and> b' = direction lane)
        \<or> (\<exists>i<length rest. hasVehicles (rest ! i) \<and> sc (rest ! i) = m'
              \<and> b' = direction (rest ! i) \<and> sc lane < m'
              \<and> (\<forall>j<i. hasVehicles (rest ! j) \<longrightarrow> sc (rest ! j) < m'))"
      by blast
    have "\<exists>i<length (lane # rest). hasVehicles ((lane # rest) ! i) \<and> sc ((lane # rest) ! i) = m'
              \<and> b' = direction ((lane # rest) ! i) \<and> m < m'
              \<and> (\<forall>j<i. hasVehicles ((lane # rest) ! j) \<longrightarrow> sc ((lane # rest) ! j) < m')"
      using alt
    proof
      assume "m' = sc lane \<and> b' = direction lane"
      with True have "0 < length (lane # rest) \<and> hasVehicles ((lane # rest) ! 0)
              \<and> sc ((lane # rest) ! 0) = m'
              \<and> b' = direction ((lane # rest) ! 0) \<and> m < m'
              \<and> (\<forall>j<0. hasVehicles ((lane # rest) ! j) \<longrightarrow> sc ((lane # rest) ! j) < m')"
        by simp
      then show ?thesis by blast
    next
      assume "\<exists>i<length rest. hasVehicles (rest ! i) \<and> sc (rest ! i) = m'
              \<and> b' = direction (rest ! i) \<and> sc lane < m'
              \<and> (\<forall>j<i. hasVehicles (rest ! j) \<longrightarrow> sc (rest ! j) < m')"
      then obtain i where i: "i < length rest" "hasVehicles (rest ! i)" "sc (rest ! i) = m'"
        "b' = direction (rest ! i)" "sc lane < m'"
        "\<forall>j<i. hasVehicles (rest ! j) \<longrightarrow> sc (rest ! j) < m'" by blast
      have "\<forall>j<Suc i. hasVehicles ((lane # rest) ! j) \<longrightarrow> sc ((lane # rest) ! j) < m'"
        using i(5,6) by (auto simp: less_Suc_eq_0_disj)
      with i True have "Suc i < length (lane # rest) \<and> hasVehicles ((lane # rest) ! Suc i)
              \<and> sc ((lane # rest) ! Suc i) = m'
              \<and> b' = direction ((lane # rest) ! Suc i) \<and> m < m'
              \<and> (\<forall>j<Suc i. hasVehicles ((lane # rest) ! j) \<longrightarrow> sc ((lane # rest) ! j) < m')"
        by simp
      then show ?thesis by blast
    qed
    moreover have "m \<le> m'" using True le by simp
    moreover have "\<forall>l \<in> set (lane # rest). hasVehicles l \<longrightarrow> sc l \<le> m'"
      using ub le by simp
    ultimately show ?thesis using r step by simp
  next
    case False
    then have step: "scoreLoop rnd now (m, b) seen (lane # rest) =
        scoreLoop rnd now (m, b) (seen @ [lane]) rest"
      by (auto simp: ls)
    from Cons.IH [of m b "seen @ [lane]"]
    obtain m' b' where r: "fst (scoreLoop rnd now (m, b) (seen @ [lane]) rest) = (m', b')"
      and le: "m \<le> m'" and ub: "\<forall>l \<in> set rest. hasVehicles l \<longrightarrow> sc l \<le> m'"
      and alt: "(m' = m \<and> b' = b)
        \<or> (\<exists>i<length rest. hasVehicles (rest ! i) \<and> sc (rest ! i) = m'
              \<and> b' = direction (rest ! i) \<and> m < m'
              \<and> (\<forall>j<i. hasVehicles (rest ! j) \<longrightarrow> sc (rest ! j) < m'))"
      by blast
    have lane_le: "hasVehicles lane \<longrightarrow> sc lane \<le> m" using False by auto
    have "(m' = m \<and> b' = b)
        \<or> (\<exists>i<length (lane # rest). hasVehicles ((lane # rest) ! i)
              \<and> sc ((lane # rest) ! i) = m'
              \<and> b' = direction ((lane # rest) ! i) \<and> m < m'
              \<and> (\<forall>j<i. hasVehicles ((lane # rest) ! j) \<longrightarrow> sc ((lane # rest) ! j) < m'))"
      using alt
    proof
      assume "m' = m \<and> b' = b"
      then show ?thesis by simp
    next
      assume "\<exists>i<length rest. hasVehicles (rest ! i) \<and> sc (rest ! i) = m'
              \<and> b' = direction (rest ! i) \<and> m < m'
              \<and> (\<forall>j<i. hasVehicles (rest ! j) \<longrightarrow> sc (rest ! j) < m')"
      then obtain i where i: "i < length rest" "hasVehicles (rest ! i)" "sc (rest ! i) = m'"
        "b' = direction (rest ! i)" "m < m'"
        "\<forall>j<i. hasVehicles (rest ! j) \<longrightarrow> sc (rest ! j) < m'" by blast
      have "\<forall>j<Suc i. hasVehicles ((lane # rest) ! j) \<longrightarrow> sc ((lane # rest) ! j) < m'"
        using i(5,6) lane_le by (auto simp: less_Suc_eq_0_disj)
      with i have "Suc i < length (lane # rest) \<and> hasVehicles ((lane # rest) ! Suc i)
              \<and> sc ((lane # rest) ! Suc i) = m'
              \<and> b' = direction ((lane # rest) ! Suc i) \<and> m < m'
              \<and> (\<forall>j<Suc i. hasVehicles ((lane # rest) ! j) \<longrightarrow> sc ((lane # rest) ! j) < m')"
        by simp
      then show ?thesis by blast
    qed
    moreover have "\<forall>l \<in> set (lane # rest). hasVehicles l \<longrightarrow> sc l \<le> m'"
      using ub le lane_le by auto
    ultimately show ?thesis using r step le by simp
  qed
qed

lemma laneScore_claimed: "fst (laneScore rnd now l) = claimed_score rnd now l"
  by (simp add: laneScore_def getAverageWaitTime_eq claimed_score_def dmul_def dadd_def
      ddiv_def getQueueLength_def getTrafficDensity_def)

text \<open>
  What the second loop returns when no lane holds an emergency vehicle: the first lane
  with the greatest score, provided that score exceeds the initial \<open>maxScore = -1\<close>,
  and North otherwise.
\<close>

lemma scoring_selects:
  assumes "lanes_inv c" and "\<forall>d. \<not> holds_emergency (lane_of c d)"
  shows "(\<exists>d. hasVehicles (lane_of c d) \<and> - 1 < claimed_score rnd now (lane_of c d)) \<Longrightarrow>
           best_by_score rnd now c (fst (findNextGreenDirection rnd now c))"
    and "\<not> (\<exists>d. hasVehicles (lane_of c d) \<and> - 1 < claimed_score rnd now (lane_of c d)) \<Longrightarrow>
           fst (findNextGreenDirection rnd now c) = NORTH"
proof -
  define sc where "sc = (\<lambda>l. fst (laneScore rnd now l))"
  have cs: "claimed_score rnd now l = sc l" for l
    by (simp add: sc_def laneScore_claimed)
  have none: "\<forall>l \<in> set (lanes c). \<not> holds_emergency l"
  proof
    fix l assume "l \<in> set (lanes c)"
    then obtain i where "i < length (lanes c)" "l = lanes c ! i"
      by (auto simp: in_set_conv_nth)
    with lanes_inv_set [OF assms(1), of i] assms(2) show "\<not> holds_emergency l" by auto
  qed
  with emergencyLoop_fst [of "[]" "lanes c"] have e: "fst (emergencyLoop [] (lanes c)) = None"
    by (metis nth_mem)
  from scoreLoop_fst [of rnd now "- 1" NORTH "[]" "lanes c"]
  obtain m' b' where r: "fst (scoreLoop rnd now (- 1, NORTH) [] (lanes c)) = (m', b')"
    and ub: "\<forall>l \<in> set (lanes c). hasVehicles l \<longrightarrow> sc l \<le> m'"
    and alt: "(m' = - 1 \<and> b' = NORTH)
        \<or> (\<exists>i<length (lanes c). hasVehicles (lanes c ! i) \<and> sc (lanes c ! i) = m'
              \<and> b' = direction (lanes c ! i) \<and> - 1 < m'
              \<and> (\<forall>j<i. hasVehicles (lanes c ! j) \<longrightarrow> sc (lanes c ! j) < m'))"
    unfolding sc_def by blast
  have res: "fst (findNextGreenDirection rnd now c) = b'"
    using findNextGreenDirection_fst_None [OF e, of rnd now] r by simp
  show "best_by_score rnd now c (fst (findNextGreenDirection rnd now c))"
    if "\<exists>d. hasVehicles (lane_of c d) \<and> - 1 < claimed_score rnd now (lane_of c d)"
  proof -
    from that obtain d0 where d0: "hasVehicles (lane_of c d0)" "- 1 < sc (lane_of c d0)"
      by (auto simp: cs)
    with ub lane_of_in_set [OF assms(1), of d0] have "- 1 < m'" by fastforce
    with alt obtain i where i: "i < length (lanes c)" "hasVehicles (lanes c ! i)"
      "sc (lanes c ! i) = m'" "b' = direction (lanes c ! i)"
      "\<forall>j<i. hasVehicles (lanes c ! j) \<longrightarrow> sc (lanes c ! j) < m'" by auto
    from lanes_inv_set [OF assms(1) i(1)]
    obtain d where d: "dir_index d = i" "lanes c ! i = lane_of c d" by blast
    from i(4) d lanes_inv_nth(2) [OF assms(1), of d] have b': "b' = d" by simp
    from i(3) d(2) have scd: "claimed_score rnd now (lane_of c d) = m'" by (simp add: cs)
    have "best_by_score rnd now c d"
      unfolding best_by_score_def
    proof (intro conjI allI impI)
      show "hasVehicles (lane_of c d)" using i(2) d by simp
    next
      fix d' assume "hasVehicles (lane_of c d')"
      with ub lane_of_in_set [OF assms(1), of d'] have "sc (lane_of c d') \<le> m'" by blast
      then show "claimed_score rnd now (lane_of c d') \<le> claimed_score rnd now (lane_of c d)"
        unfolding scd by (simp add: cs)
    next
      fix d' assume "hasVehicles (lane_of c d')" and "dir_index d' < dir_index d"
      with i(5) d(1) have "sc (lanes c ! dir_index d') < m'" by (simp add: lane_of_def)
      then show "claimed_score rnd now (lane_of c d') < claimed_score rnd now (lane_of c d)"
        unfolding scd by (simp add: cs lane_of_def)
    qed
    with res b' show ?thesis by simp
  qed
  show "fst (findNextGreenDirection rnd now c) = NORTH"
    if no: "\<not> (\<exists>d. hasVehicles (lane_of c d) \<and> - 1 < claimed_score rnd now (lane_of c d))"
  proof -
    have "b' = NORTH"
      using alt
    proof
      assume "m' = - 1 \<and> b' = NORTH" then show ?thesis by simp
    next
      assume "\<exists>i<length (lanes c). hasVehicles (lanes c ! i) \<and> sc (lanes c ! i) = m'
              \<and> b' = direction (lanes c ! i) \<and> - 1 < m'
              \<and> (\<forall>j<i. hasVehicles (lanes c ! j) \<longrightarrow> sc (lanes c ! j) < m')"
      then obtain i where i: "i < length (lanes c)" "hasVehicles (lanes c ! i)"
        "sc (lanes c ! i) = m'" "- 1 < m'" by blast
      from lanes_inv_set [OF assms(1) i(1)]
      obtain d where d: "lanes c ! i = lane_of c d" by blast
      with i have "hasVehicles (lane_of c d) \<and> - 1 < claimed_score rnd now (lane_of c d)"
        by (simp add: cs)
      with no show ?thesis by blast
    qed
    with res show ?thesis by simp
  qed
qed

text \<open>
  Scores are never negative as long as no waiting time is: the rounding is only asked to
  keep non-negative numbers non-negative, as rounding to the nearest double does.
\<close>

lemma getWaitingTime_nonneg: "arrivalTime v \<le> now \<Longrightarrow> 0 \<le> getWaitingTime now v"
  by (simp add: getWaitingTime_def ticks_per_second_def signed_divide_int_def sgn_if
      pos_imp_zdiv_nonneg_iff)

lemma claimed_score_nonneg:
  assumes rnd: "\<And>x. 0 \<le> x \<Longrightarrow> 0 \<le> rnd x"
    and dens: "0 \<le> trafficDensity l"
    and waits: "\<forall>v \<in> set (vehicles l). 0 \<le> getWaitingTime now v"
  shows "0 \<le> claimed_score rnd now l"
proof -
  have "0 \<le> sum_list (map (getWaitingTime now) (vehicles l))"
    using waits by (intro sum_list_nonneg) auto
  then have avg: "0 \<le> (if vehicles l = [] then 0
                  else rnd (real_of_int (sum_list (map (getWaitingTime now) (vehicles l)))
                            / real (length (vehicles l))))"
    by (auto intro!: rnd divide_nonneg_nonneg)
  have a: "0 \<le> rnd (real (length (vehicles l))
               * (if vehicles l = [] then 0
                  else rnd (real_of_int (sum_list (map (getWaitingTime now) (vehicles l)))
                            / real (length (vehicles l)))))"
    using avg by (intro rnd mult_nonneg_nonneg) simp_all
  have b: "0 \<le> rnd (1 + rnd (real_of_int (trafficDensity l) / 10))"
    using dens by (intro rnd add_nonneg_nonneg divide_nonneg_nonneg) simp_all
  show ?thesis
    unfolding claimed_score_def by (rule rnd, rule mult_nonneg_nonneg [OF a b])
qed

text \<open>
  Claim C2. In a state in which no lane holds an emergency vehicle (and, as in every run
  of the program, no queued vehicle has a negative waiting time and no density is
  negative), \<open>findNextGreenDirection\<close> computes for each lane the score
  \<open>queueLength * averageWaitTime * (1 + density / 10)\<close> and returns the lane with the
  greatest score among the lanes with vehicles, the first such lane in the order North,
  East, South, West on a tie; if no lane has a vehicle it returns North.
\<close>

theorem greatest_score_selected:
  assumes "lanes_inv c" and "\<forall>d. \<not> holds_emergency (lane_of c d)"
    and "\<forall>x. 0 \<le> x \<longrightarrow> 0 \<le> rnd x"
    and "\<forall>d. 0 \<le> trafficDensity (lane_of c d)"
    and "\<forall>d. \<forall>v \<in> set (vehicles (lane_of c d)). 0 \<le> getWaitingTime now v"
  shows "(\<forall>d. fst (laneScore rnd now (lane_of c d)) = claimed_score rnd now (lane_of c d))
    \<and> (if \<exists>d. hasVehicles (lane_of c d)
        then best_by_score rnd now c (fst (findNextGreenDirection rnd now c))
        else fst (findNextGreenDirection rnd now c) = NORTH)"
proof -
  have "0 \<le> claimed_score rnd now (lane_of c d)" for d
    using assms(3,4,5) by (intro claimed_score_nonneg) auto
  then have "- 1 < claimed_score rnd now (lane_of c d)" for d
    by (rule order.strict_trans2 [rotated]) simp
  then have "(\<exists>d. hasVehicles (lane_of c d) \<and> - 1 < claimed_score rnd now (lane_of c d))
      \<longleftrightarrow> (\<exists>d. hasVehicles (lane_of c d))" by simp
  with scoring_selects [OF assms(1,2), of rnd now] show ?thesis
    by (auto simp: laneScore_claimed)
qed

theorem greatest_score_selected_witness:
  "lanes_inv scenarioA
   \<and> \<not> holds_emergency (lane_of scenarioA NORTH)
   \<and> \<not> holds_emergency (lane_of scenarioA EAST)
   \<and> \<not> holds_emergency (lane_of scenarioA SOUTH)
   \<and> \<not> holds_emergency (lane_of scenarioA WEST)
   \<and> claimed_score id (10 * ticks_per_second) (lane_of scenarioA NORTH) = 24
   \<and> fst (laneScore id (10 * ticks_per_second) (lane_of scenarioA NORTH)) = 24
   \<and> fst (findNextGreenDirection id (10 * ticks_per_second) scenarioA) = NORTH
   \<and> best_by_score id (10 * ticks_per_second) scenarioA
        (fst (findNextGreenDirection id (10 * ticks_per_second) scenarioA))"
proof -
  have h1: "lanes_inv scenarioA" by (simp add: scenarioA_def example_defs)
  have h2: "\<forall>d. \<not> holds_emergency (lane_of scenarioA d)"
    by (simp add: all_Direction scenarioA_def example_defs)
  have h3: "\<forall>x::real. 0 \<le> x \<longrightarrow> 0 \<le> id x" by simp
  have h4: "\<forall>d. 0 \<le> trafficDensity (lane_of scenarioA d)"
    by (simp add: all_Direction scenarioA_def example_defs)
  have h5: "\<forall>d. \<forall>v \<in> set (vehicles (lane_of scenarioA d)).
              0 \<le> getWaitingTime (10 * ticks_per_second) v"
    by (simp add: all_Direction scenarioA_def example_defs getWaitingTime_def
        ticks_per_second_def signed_divide_int_def)
  have s: "claimed_score id (10 * ticks_per_second) (lane_of scenarioA NORTH) = 24"
    by (simp add: claimed_score_def scenarioA_def example_defs getWaitingTime_def
        ticks_per_second_def signed_divide_int_def)
  have v: "\<exists>d. hasVehicles (lane_of scenarioA d)"
    by (rule exI [of _ NORTH]) (simp add: scenarioA_def example_defs)
  have n: "fst (findNextGreenDirection id (10 * ticks_per_second) scenarioA) = NORTH"
    by (simp add: scenarioA_def example_defs eval_defs)
  from greatest_score_selected [OF h1 h2 h3 h4 h5] v s n h1 h2
  show ?thesis by (simp add: all_Direction laneScore_claimed)
qed

section \<open>Draining the selected lane\<close>

lemma processVehicles_loop_eq:
  assumes "dir_index dir < length (lanes c)" and "vehicles (lane_of c dir) = q"
  shows "processVehicles_loop now dir canPass passed out c =
     (let k = min (nat (canPass - passed)) (length q)
      in Inr (passed + int k, out @ take k q,
              c\<lparr>lanes := (lanes c)[dir_index dir := (lane_of c dir)\<lparr>vehicles := drop k q\<rparr>],
                totalVehiclesProcessed := totalVehiclesProcessed c + int k,
                totalWaitTime :=
                  totalWaitTime c + sum_list (map (getWaitingTime now) (take k q))\<rparr>))"
  using assms
proof (induction q arbitrary: c passed out)
  case Nil
  then have "(lanes c)[dir_index dir := (lane_of c dir)\<lparr>vehicles := []\<rparr>] = lanes c"
    by (simp add: lane_of_def list_update_same_conv)
  with Nil show ?case
    by (subst processVehicles_loop.simps) (simp add: hasVehicles_def)
next
  case (Cons v q)
  show ?case
  proof (cases "passed < canPass")
    case False
    then have k: "min (nat (canPass - passed)) (length (v # q)) = 0" by simp
    from Cons.prems
    have "(lanes c)[dir_index dir := (lane_of c dir)\<lparr>vehicles := v # q\<rparr>] = lanes c"
      by (simp add: lane_of_def list_update_same_conv)
    with False show ?thesis
      unfolding k Let_def by (subst processVehicles_loop.simps) simp
  next
    case True
    define c1 where "c1 = c\<lparr>lanes := (lanes c)[dir_index dir := (lane_of c dir)\<lparr>vehicles := q\<rparr>],
                     totalVehiclesProcessed := totalVehiclesProcessed c + 1,
                     totalWaitTime := totalWaitTime c + getWaitingTime now v\<rparr>"
    from True Cons.prems
    have step: "processVehicles_loop now dir canPass passed out c =
        processVehicles_loop now dir canPass (passed + 1) (out @ [v]) c1"
      by (subst processVehicles_loop.simps)
        (simp add: hasVehicles_def processVehicle_def c1_def)
    have p1: "dir_index dir < length (lanes c1)" using Cons.prems by (simp add: c1_def)
    have p2: "vehicles (lane_of c1 dir) = q" using Cons.prems by (simp add: c1_def lane_of_def)
    from True have "nat (canPass - passed) = Suc (nat (canPass - (passed + 1)))" by arith
    then have k: "min (nat (canPass - passed)) (length (v # q)) =
        Suc (min (nat (canPass - (passed + 1))) (length q))"
      by simp
    have l1: "lane_of c1 dir = (lane_of c dir)\<lparr>vehicles := q\<rparr>"
      using Cons.prems by (simp add: c1_def lane_of_def)
    show ?thesis
      unfolding step Cons.IH [OF p1 p2] k Let_def l1
      by (simp add: c1_def)
  qed
qed

lemma processVehicles_eq:
  assumes "dir_index dir < length (lanes c)"
  shows "processVehicles now dir greenTime c =
      Inr (int (nat (min (greenTime sdiv 2) (int (length (vehicles (lane_of c dir)))))),
           take (nat (min (greenTime sdiv 2) (int (length (vehicles (lane_of c dir))))))
             (vehicles (lane_of c dir)),
           c\<lparr>lanes := (lanes c)[dir_index dir := (lane_of c dir)
                \<lparr>vehicles := drop (nat (min (greenTime sdiv 2)
                                (int (length (vehicles (lane_of c dir))))))
                              (vehicles (lane_of c dir))\<rparr>],
             totalVehiclesProcessed := totalVehiclesProcessed c
               + int (nat (min (greenTime sdiv 2) (int (length (vehicles (lane_of c dir)))))),
             totalWaitTime := totalWaitTime c + sum_list (map (getWaitingTime now)
               (take (nat (min (greenTime sdiv 2) (int (length (vehicles (lane_of c dir))))))
                  (vehicles (lane_of c dir))))\<rparr>)"
proof -
  have "nat (min (greenTime sdiv 2) (int (length (vehicles (lane_of c dir))))) =
        min (nat (greenTime sdiv 2 - 0)) (length (vehicles (lane_of c dir)))"
    by arith
  then show ?thesis
    unfolding processVehicles_def Let_def
      processVehicles_loop_eq [OF assms refl, of now "greenTime sdiv 2" 0 "[]"]
    by simp
qed

lemma calculateAdaptiveGreenTime_range:
  assumes "signal_inv s"
  shows "10 \<le> calculateAdaptiveGreenTime s lane \<and> calculateAdaptiveGreenTime s lane \<le> 60"
  using assms by (simp add: signal_inv_def calculateAdaptiveGreenTime_def std_clamp_def Let_def)

text \<open>
  Claim C4. In the vehicle-draining step, for every selected direction and every green
  time (a green time is never negative: the step is given what
  \<open>calculateAdaptiveGreenTime\<close> returns, between 10 and 60), with
  \<open>canPass = greenTime / 2\<close> by integer division, exactly
  \<open>min(canPass, initial queue length)\<close> vehicles are dequeued. They are the first
  vehicles of the queue, reported in queue order; the rest of the queue stays;
  \<open>totalVehiclesProcessed\<close> grows by their number and \<open>totalWaitTime\<close> by the sum
  of their waiting times; nothing else in the controller changes. The call returns
  normally: the \<open>EmptyQueue\<close> exception is never raised.
\<close>

theorem draining_takes_queue_prefix:
  assumes "dir_index dir < length (lanes c)" and "0 \<le> greenTime"
  shows "processVehicles now dir greenTime c =
     (let q = vehicles (lane_of c dir);
          canPass = greenTime sdiv 2;
          n = min canPass (int (length q))
      in Inr (n, take (nat n) q,
              c\<lparr>lanes := (lanes c)[dir_index dir :=
                         (lane_of c dir)\<lparr>vehicles := drop (nat n) q\<rparr>],
                totalVehiclesProcessed := totalVehiclesProcessed c + n,
                totalWaitTime :=
                  totalWaitTime c + sum_list (map (getWaitingTime now) (take (nat n) q))\<rparr>))
     \<and> int (length (take (nat (min (greenTime sdiv 2) (int (length (vehicles (lane_of c dir))))))
                     (vehicles (lane_of c dir))))
         = min (greenTime sdiv 2) (int (length (vehicles (lane_of c dir))))"
proof -
  from assms(2) have "0 \<le> greenTime sdiv 2"
    by (simp add: signed_divide_int_def sgn_if pos_imp_zdiv_nonneg_iff)
  then have n: "int (nat (min (greenTime sdiv 2) (int (length (vehicles (lane_of c dir))))))
      = min (greenTime sdiv 2) (int (length (vehicles (lane_of c dir))))"
    by simp
  have l: "int (length (take (nat (min (greenTime sdiv 2)
             (int (length (vehicles (lane_of c dir)))))) (vehicles (lane_of c dir))))
         = min (greenTime sdiv 2) (int (length (vehicles (lane_of c dir))))"
    using \<open>0 \<le> greenTime sdiv 2\<close> by (simp add: min_def) linarith
  show ?thesis
    unfolding Let_def using processVehicles_eq [OF assms(1), of now greenTime] n l by simp
qed

theorem draining_takes_queue_prefix_witness:
  "dir_index NORTH < length (lanes scenarioA) \<and> (0::int) \<le> 36
   \<and> calculateAdaptiveGreenTime new_TrafficSignal (lane_of scenarioA NORTH) = 36
   \<and> processVehicles (10 * ticks_per_second) NORTH 36 scenarioA =
       Inr (3, vehicles (lane_of scenarioA NORTH),
            scenarioA\<lparr>lanes := (lanes scenarioA)[0 := new_TrafficLane NORTH],
                       totalVehiclesProcessed := 3, totalWaitTime := 16\<rparr>)"
proof -
  have h: "dir_index NORTH < length (lanes scenarioA)" by (simp add: scenarioA_def example_defs)
  have g: "calculateAdaptiveGreenTime new_TrafficSignal (lane_of scenarioA NORTH) = 36"
    by (simp add: calculateAdaptiveGreenTime_def std_clamp_def getQueueLength_def
        getTrafficDensity_def scenarioA_def example_defs)
  have p: "(0::int) \<le> 36" by simp
  from draining_takes_queue_prefix [OF h p, of "10 * ticks_per_second"] h g show ?thesis
    by (simp add: scenarioA_def example_defs getWaitingTime_def ticks_per_second_def
        signed_divide_int_def)
qed

section \<open>The cycle\<close>

lemma setYellow_fields:
  "currentGreenDirection (setYellow s) = currentGreenDirection s"
  "yellowTime (setYellow s) = yellowTime s"
  by (simp_all add: setYellow_def)

lemma changeLight_fields:
  "yellowTime (changeLight d s) = yellowTime s"
  "currentGreenDirection (changeLight d s) = int (dir_index d)"
  by (simp_all add: changeLight_def Let_def)

lemma generateTraffic_signal: "signal (generateTraffic draws now c) = signal c"
  by (simp add: generateTraffic_def split_beta)

lemma generateTraffic_lane_direction:
  "direction (fst (generateTraffic_lane draws now lane st)) = direction lane"
  by (simp add: generateTraffic_lane_def split_beta Let_def setTrafficDensity_def addVehicle_def)

lemma generateTraffic_lanes_direction:
  "map direction (fst (generateTraffic_lanes draws now ls st)) = map direction ls"
proof (induction ls arbitrary: st)
  case Nil
  then show ?case by simp
next
  case (Cons lane ls)
  then show ?case
    using generateTraffic_lane_direction [of draws now lane st]
    by (simp add: split_beta)
qed

lemma generateTraffic_lanes_inv: "lanes_inv c \<Longrightarrow> lanes_inv (generateTraffic draws now c)"
  using generateTraffic_lanes_direction [of draws now "lanes c" "(rng c, vehicleCounter c)"]
  by (simp add: lanes_inv_def generateTraffic_def split_beta)

lemma processVehicles_loop_signal:
  "processVehicles_loop now dir canPass passed out c = Inr (p, out', c') \<Longrightarrow> signal c' = signal c"
proof (induction now dir canPass passed out c rule: processVehicles_loop.induct)
  case (1 now dir canPass passed out c)
  show ?case
  proof (cases "passed < canPass \<and> hasVehicles (lane_of c dir)")
    case False
    with "1.prems" show ?thesis
      by (subst (asm) processVehicles_loop.simps) auto
  next
    case True
    obtain r lane' where pv: "processVehicle (lane_of c dir) = (r, lane')" by fastforce
    show ?thesis
    proof (cases r)
      case (Inl e)
      with True pv "1.prems" show ?thesis
        by (subst (asm) processVehicles_loop.simps) simp
    next
      case (Inr v)
      with True pv "1.prems"
      have "processVehicles_loop now dir canPass (passed + 1) (out @ [v])
              (c\<lparr>lanes := (lanes c)[dir_index dir := lane'],
                 totalVehiclesProcessed := totalVehiclesProcessed c + 1,
                 totalWaitTime := totalWaitTime c + getWaitingTime now v\<rparr>) = Inr (p, out', c')"
        by (subst (asm) processVehicles_loop.simps) simp
      from "1.IH" [OF True pv [symmetric] Inr this] show ?thesis by simp
    qed
  qed
qed

lemma processVehicles_signal:
  "processVehicles now dir greenTime c = Inr (p, out, c') \<Longrightarrow> signal c' = signal c"
  unfolding processVehicles_def Let_def by (rule processVehicles_loop_signal)

subsection \<open>The trace of one cycle\<close>

text \<open>
  If a direction was green: the lights as \<open>setYellow\<close> leaves them, the delay of
  \<open>yellowTime\<close> seconds, the lights as \<open>changeLight\<close> leaves them; otherwise only
  the latter. The rest of the cycle only waits.
\<close>

lemma processCycle_events:
  "\<exists>tail. (\<forall>ls. Lights ls \<notin> set tail)
     \<and> fst (processCycle draws rnd tGen tSel tDrain c) =
         (if currentGreenDirection (signal c) \<ge> 0
          then [Lights (lightStates (setYellow (signal c))),
                Sleep (seconds (yellowTime (signal c)))]
          else [])
         @ [Lights (lightStates
              (changeLight (selected draws rnd tGen tSel c) (setYellow (signal c))))]
         @ tail"
proof -
  define c2 where "c2 = generateTraffic draws tGen (c\<lparr>cycleCounter := cycleCounter c + 1\<rparr>)"
  have s2: "signal c2 = signal c" by (simp add: c2_def generateTraffic_signal)
  have f: "findNextGreenDirection rnd tSel c2 = (selected draws rnd tGen tSel c, c2)"
    using findNextGreenDirection_pair [of rnd tSel c2] by (simp add: selected_def c2_def)
  have y: "\<not> 0 \<le> currentGreenDirection (signal c) \<Longrightarrow> setYellow (signal c) = signal c"
    by (simp add: setYellow_def)
  show ?thesis
    unfolding processCycle_def Let_def c2_def [symmetric] f
    by (cases "currentGreenDirection (signal c) \<ge> 0")
       (auto simp: s2 y getCurrentGreenDirection_def getYellowTime_def split: sum.splits)
qed

lemma processCycle_signal:
  assumes "snd (processCycle draws rnd tGen tSel tDrain c) = Inr c'"
  shows "signal c' = changeLight (selected draws rnd tGen tSel c) (setYellow (signal c))"
proof -
  define c2 where "c2 = generateTraffic draws tGen (c\<lparr>cycleCounter := cycleCounter c + 1\<rparr>)"
  have s2: "signal c2 = signal c" by (simp add: c2_def generateTraffic_signal)
  have f: "findNextGreenDirection rnd tSel c2 = (selected draws rnd tGen tSel c, c2)"
    using findNextGreenDirection_pair [of rnd tSel c2] by (simp add: selected_def c2_def)
  have y: "currentGreenDirection (signal c) < 0 \<Longrightarrow> setYellow (signal c) = signal c"
    by (simp add: setYellow_def)
  from assms show ?thesis
    unfolding processCycle_def Let_def c2_def [symmetric] f
    by (cases "currentGreenDirection (signal c) \<ge> 0")
       (auto simp: s2 y getCurrentGreenDirection_def split: sum.splits if_splits
          dest!: processVehicles_signal)
qed

subsection \<open>The signal between cycles\<close>

lemma dir_index_inj: "dir_index a = dir_index b \<longleftrightarrow> a = b"
  by (cases a; cases b) simp_all

lemma all_red_update:
  "(replicate 4 RED)[dir_index a := x] ! dir_index b = (if a = b then x else RED)"
  using dir_index_less [of a] dir_index_less [of b]
  by (simp add: nth_list_update dir_index_inj)

lemma all_red_nth: "replicate 4 RED ! dir_index b = RED"
  using dir_index_less [of b] by simp

lemma cycle_signal_inv_new: "cycle_signal_inv new_TrafficSignal"
  by (simp add: cycle_signal_inv_def new_TrafficSignal_def)

lemma cycle_lights_none:
  assumes "currentGreenDirection s = - 1" and "lightStates s = replicate 4 RED"
  shows "lightStates (changeLight d (setYellow s)) = (replicate 4 RED)[dir_index d := GREEN]"
  using assms by (simp add: setYellow_def changeLight_def Let_def)

lemma cycle_lights_some:
  assumes "currentGreenDirection s = int (dir_index g)"
    and "lightStates s = (replicate 4 RED)[dir_index g := GREEN]"
  shows "lightStates (setYellow s) = (replicate 4 RED)[dir_index g := YELLOW]"
    and "lightStates (changeLight d (setYellow s)) = (replicate 4 RED)[dir_index d := GREEN]"
proof -
  show y: "lightStates (setYellow s) = (replicate 4 RED)[dir_index g := YELLOW]"
    using assms by (simp add: setYellow_def)
  have "((replicate 4 RED)[dir_index g := YELLOW])[dir_index g := RED] = replicate 4 RED"
    by (cases g) (simp_all add: eval_nat_numeral)
  with y assms(1) show "lightStates (changeLight d (setYellow s))
      = (replicate 4 RED)[dir_index d := GREEN]"
    by (simp add: changeLight_def Let_def setYellow_fields)
qed

lemma cycle_signal_inv_step:
  assumes "cycle_signal_inv s"
  shows "cycle_signal_inv (changeLight d (setYellow s))"
proof -
  from assms have "lightStates (changeLight d (setYellow s))
      = (replicate 4 RED)[dir_index d := GREEN]"
    unfolding cycle_signal_inv_def
    using cycle_lights_none [of s d] cycle_lights_some(2) [of s _ d] by auto
  with assms show ?thesis
    by (auto simp: cycle_signal_inv_def changeLight_fields setYellow_fields)
qed

subsection \<open>Red only after the yellow hold\<close>

lemma lights_after_append:
  "lights_after init (xs @ ys) = lights_after (lights_after init xs) ys"
  by (induction init xs rule: lights_after.induct) simp_all

lemma lights_after_waiting:
  assumes "\<forall>ls. Lights ls \<notin> set evs"
  shows "lights_after init evs = init"
  using assms by (induction init evs rule: lights_after.induct) simp_all

lemma red_after_yellow_hold_waiting:
  assumes "\<forall>ls. Lights ls \<notin> set evs"
  shows "red_after_yellow_hold init evs"
proof -
  have "lights_after init (take n evs) = init" for n
    using assms by (intro lights_after_waiting) (auto dest: in_set_takeD)
  then show ?thesis by (simp add: red_after_yellow_hold_def)
qed

lemma red_after_yellow_hold_append:
  assumes "red_after_yellow_hold init xs"
    and "red_after_yellow_hold (lights_after init xs) ys"
  shows "red_after_yellow_hold init (xs @ ys)"
  unfolding red_after_yellow_hold_def
proof (intro allI impI)
  fix i d
  assume a: "i < length (xs @ ys)
      \<and> lights_after init (take i (xs @ ys)) ! dir_index d \<noteq> RED
      \<and> lights_after init (take (Suc i) (xs @ ys)) ! dir_index d = RED"
  show "2 \<le> i \<and> (xs @ ys) ! (i - 1) = Sleep (seconds 3)
        \<and> lights_after init (take (i - 1) (xs @ ys)) ! dir_index d = YELLOW
        \<and> lights_after init (take (i - 2) (xs @ ys)) ! dir_index d = GREEN"
  proof (cases "i < length xs")
    case True
    with a have "i < length xs
      \<and> lights_after init (take i xs) ! dir_index d \<noteq> RED
      \<and> lights_after init (take (Suc i) xs) ! dir_index d = RED"
      by simp
    with assms(1)
    have r: "2 \<le> i \<and> xs ! (i - 1) = Sleep (seconds 3)
        \<and> lights_after init (take (i - 1) xs) ! dir_index d = YELLOW
        \<and> lights_after init (take (i - 2) xs) ! dir_index d = GREEN"
      unfolding red_after_yellow_hold_def by blast
    from True have "i - 1 < length xs" by simp
    with True r show ?thesis by (simp add: nth_append)
  next
    case False
    define j where "j = i - length xs"
    from False have t0: "take i (xs @ ys) = xs @ take j ys"
      "take (Suc i) (xs @ ys) = xs @ take (Suc j) ys"
      by (simp_all add: j_def Suc_diff_le)
    from False a have jl: "j < length ys" by (auto simp: j_def)
    from a have "lights_after (lights_after init xs) (take j ys) ! dir_index d \<noteq> RED
      \<and> lights_after (lights_after init xs) (take (Suc j) ys) ! dir_index d = RED"
      unfolding t0 lights_after_append by simp
    with assms(2) jl
    have r: "2 \<le> j \<and> ys ! (j - 1) = Sleep (seconds 3)
        \<and> lights_after (lights_after init xs) (take (j - 1) ys) ! dir_index d = YELLOW
        \<and> lights_after (lights_after init xs) (take (j - 2) ys) ! dir_index d = GREEN"
      unfolding red_after_yellow_hold_def by blast
    from r have j2: "2 \<le> j" by simp
    from False j2 have e: "i - 1 = length xs + (j - 1)" "i - 2 = length xs + (j - 2)" "2 \<le> i"
      unfolding j_def by arith+
    have t1: "take (i - 1) (xs @ ys) = xs @ take (j - 1) ys"
      "take (i - 2) (xs @ ys) = xs @ take (j - 2) ys"
      "(xs @ ys) ! (i - 1) = ys ! (j - 1)"
      unfolding e by simp_all
    show ?thesis
      unfolding t1 lights_after_append using r e(3) by simp
  qed
qed

lemma red_after_yellow_hold_first:
  "red_after_yellow_hold (replicate 4 RED) [Lights ((replicate 4 RED)[dir_index d := GREEN])]"
  unfolding red_after_yellow_hold_def
proof (intro allI impI)
  fix i k
  let ?evs = "[Lights ((replicate 4 RED)[dir_index d := GREEN])]"
  assume a: "i < length ?evs
      \<and> lights_after (replicate 4 RED) (take i ?evs) ! dir_index k \<noteq> RED
      \<and> lights_after (replicate 4 RED) (take (Suc i) ?evs) ! dir_index k = RED"
  then have "i = 0" by simp
  with a have False by (simp add: all_red_nth)
  then show "2 \<le> i \<and> ?evs ! (i - 1) = Sleep (seconds 3)
        \<and> lights_after (replicate 4 RED) (take (i - 1) ?evs) ! dir_index k = YELLOW
        \<and> lights_after (replicate 4 RED) (take (i - 2) ?evs) ! dir_index k = GREEN" ..
qed

lemma red_after_yellow_hold_transition:
  "red_after_yellow_hold ((replicate 4 RED)[dir_index g := GREEN])
     [Lights ((replicate 4 RED)[dir_index g := YELLOW]), Sleep (seconds 3),
      Lights ((replicate 4 RED)[dir_index d := GREEN])]"
  unfolding red_after_yellow_hold_def
proof (intro allI impI)
  fix i k
  let ?evs = "[Lights ((replicate 4 RED)[dir_index g := YELLOW]), Sleep (seconds 3),
      Lights ((replicate 4 RED)[dir_index d := GREEN])]"
  let ?init = "(replicate 4 RED)[dir_index g := GREEN]"
  assume a: "i < length ?evs
      \<and> lights_after ?init (take i ?evs) ! dir_index k \<noteq> RED
      \<and> lights_after ?init (take (Suc i) ?evs) ! dir_index k = RED"
  then have "i = 0 \<or> i = 1 \<or> i = 2" by auto
  then show "2 \<le> i \<and> ?evs ! (i - 1) = Sleep (seconds 3)
        \<and> lights_after ?init (take (i - 1) ?evs) ! dir_index k = YELLOW
        \<and> lights_after ?init (take (i - 2) ?evs) ! dir_index k = GREEN"
  proof (elim disjE)
    assume "i = 0"
    with a show ?thesis by (simp add: all_red_update split: if_splits)
  next
    assume "i = 1"
    with a show ?thesis by simp
  next
    assume "i = 2"
    with a show ?thesis by (simp add: all_red_update split: if_splits)
  qed
qed

lemma processCycle_trace:
  assumes "cycle_signal_inv (signal c)"
  shows "red_after_yellow_hold (lightStates (signal c))
           (fst (processCycle draws rnd tGen tSel tDrain c))"
    and "lights_after (lightStates (signal c)) (fst (processCycle draws rnd tGen tSel tDrain c))
           = lightStates (changeLight (selected draws rnd tGen tSel c) (setYellow (signal c)))"
proof -
  let ?d = "selected draws rnd tGen tSel c"
  let ?head = "(if currentGreenDirection (signal c) \<ge> 0
          then [Lights (lightStates (setYellow (signal c))),
                Sleep (seconds (yellowTime (signal c)))]
          else [])
         @ [Lights (lightStates (changeLight ?d (setYellow (signal c))))]"
  from processCycle_events [of draws rnd tGen tSel tDrain c]
  obtain tail where t: "\<forall>ls. Lights ls \<notin> set tail"
    and e: "fst (processCycle draws rnd tGen tSel tDrain c) = ?head @ tail"
    by auto
  have la: "lights_after (lightStates (signal c)) ?head
      = lightStates (changeLight ?d (setYellow (signal c)))"
    by simp
  have h: "red_after_yellow_hold (lightStates (signal c)) ?head"
  proof (cases "currentGreenDirection (signal c) = - 1")
    case True
    with assms have ls: "lightStates (signal c) = replicate 4 RED"
      by (auto simp: cycle_signal_inv_def)
    from True ls show ?thesis
      by (simp add: cycle_lights_none red_after_yellow_hold_first)
  next
    case False
    with assms obtain g where g: "currentGreenDirection (signal c) = int (dir_index g)"
      "lightStates (signal c) = (replicate 4 RED)[dir_index g := GREEN]"
      by (auto simp: cycle_signal_inv_def)
    from assms have y: "yellowTime (signal c) = 3" by (simp add: cycle_signal_inv_def)
    from g y show ?thesis
      by (simp add: cycle_lights_some [OF g] red_after_yellow_hold_transition)
  qed
  have "red_after_yellow_hold (lights_after (lightStates (signal c)) ?head) tail"
    using t by (rule red_after_yellow_hold_waiting)
  with h show "red_after_yellow_hold (lightStates (signal c))
           (fst (processCycle draws rnd tGen tSel tDrain c))"
    unfolding e by (rule red_after_yellow_hold_append)
  have "lights_after (lightStates (signal c)) (?head @ tail)
      = lights_after (lights_after (lightStates (signal c)) ?head) tail"
    by (rule lights_after_append)
  also have "\<dots> = lights_after (lightStates (changeLight ?d (setYellow (signal c)))) tail"
    by (simp only: la)
  also have "\<dots> = lightStates (changeLight ?d (setYellow (signal c)))"
    using t by (rule lights_after_waiting)
  finally show "lights_after (lightStates (signal c))
      (fst (processCycle draws rnd tGen tSel tDrain c))
           = lightStates (changeLight ?d (setYellow (signal c)))"
    unfolding e .
qed

text \<open>
  A cycle that starts with a green direction \<open>g\<close>: that light is Green, the cycle first
  shows it Yellow, waits 3 seconds, and then shows it Red, unless \<open>g\<close> is selected
  again, in which case it shows it Green.
\<close>

lemma processCycle_yellow_hold:
  assumes "cycle_signal_inv (signal c)"
    and "currentGreenDirection (signal c) = int (dir_index g)"
  shows "lightStates (signal c) ! dir_index g = GREEN
    \<and> (\<exists>tail. fst (processCycle draws rnd tGen tSel tDrain c) =
          Lights (lightStates (setYellow (signal c))) # Sleep (seconds 3)
          # Lights (lightStates (changeLight (selected draws rnd tGen tSel c)
                                  (setYellow (signal c)))) # tail)
    \<and> lightStates (setYellow (signal c)) ! dir_index g = YELLOW
    \<and> lightStates (changeLight (selected draws rnd tGen tSel c) (setYellow (signal c)))
        ! dir_index g = (if selected draws rnd tGen tSel c = g then GREEN else RED)"
proof -
  from assms have ls: "lightStates (signal c) = (replicate 4 RED)[dir_index g := GREEN]"
    by (auto simp: cycle_signal_inv_def dir_index_inj)
  from assms have y: "yellowTime (signal c) = 3" by (simp add: cycle_signal_inv_def)
  from processCycle_events [of draws rnd tGen tSel tDrain c] assms(2) y
  have "\<exists>tail. fst (processCycle draws rnd tGen tSel tDrain c) =
          Lights (lightStates (setYellow (signal c))) # Sleep (seconds 3)
          # Lights (lightStates (changeLight (selected draws rnd tGen tSel c)
                                  (setYellow (signal c)))) # tail"
    by auto
  then show ?thesis
    by (simp add: ls cycle_lights_some [OF assms(2) ls] all_red_update)
qed

subsection \<open>Runs of cycles\<close>

lemma runCycles_trace:
  assumes "cycle_signal_inv (signal c)"
  shows "red_after_yellow_hold (lightStates (signal c)) (fst (runCycles draws rnd ts c))"
  using assms
proof (induction ts arbitrary: c)
  case Nil
  then show ?case by (simp add: red_after_yellow_hold_def)
next
  case (Cons t ts)
  obtain tGen tSel tDrain where t: "t = (tGen, tSel, tDrain)" by (cases t) auto
  obtain ev r where p: "processCycle draws rnd tGen tSel tDrain c = (ev, r)" by fastforce
  from processCycle_trace [OF Cons.prems, of draws rnd tGen tSel tDrain] p
  have ev: "red_after_yellow_hold (lightStates (signal c)) ev"
    and la: "lights_after (lightStates (signal c)) ev
      = lightStates (changeLight (selected draws rnd tGen tSel c) (setYellow (signal c)))"
    by simp_all
  show ?case
  proof (cases r)
    case (Inl e)
    with t p ev show ?thesis by simp
  next
    case (Inr c')
    with p have "snd (processCycle draws rnd tGen tSel tDrain c) = Inr c'" by simp
    from processCycle_signal [OF this]
    have s': "signal c' = changeLight (selected draws rnd tGen tSel c) (setYellow (signal c))" .
    with Cons.prems have "cycle_signal_inv (signal c')"
      by (simp add: cycle_signal_inv_step)
    from Cons.IH [OF this]
    have "red_after_yellow_hold (lights_after (lightStates (signal c)) ev)
            (fst (runCycles draws rnd ts c'))"
      by (simp add: la s')
    with ev have "red_after_yellow_hold (lightStates (signal c))
        (ev @ fst (runCycles draws rnd ts c'))"
      by (rule red_after_yellow_hold_append)
    with t p Inr show ?thesis by (simp add: split_beta)
  qed
qed

text \<open>No cycle ends with an exception, and the lanes stay in their places.\<close>

lemma lanes_inv_update:
  assumes "lanes_inv c"
  shows "map direction ((lanes c)[dir_index dir := (lane_of c dir)\<lparr>vehicles := q\<rparr>])
           = [NORTH, EAST, SOUTH, WEST]"
proof -
  have "dir_index dir < length (lanes c)"
    using lanes_inv_nth(1) [OF assms] dir_index_less [of dir] by simp
  then have "map direction ((lanes c)[dir_index dir := (lane_of c dir)\<lparr>vehicles := q\<rparr>])
        = map direction (lanes c)"
    by (simp add: map_update lane_of_def list_update_same_conv)
  with assms show ?thesis by (simp add: lanes_inv_def)
qed

lemma processCycle_total:
  assumes "lanes_inv c"
  shows "\<exists>c'. snd (processCycle draws rnd tGen tSel tDrain c) = Inr c' \<and> lanes_inv c'"
proof -
  define c2 where "c2 = generateTraffic draws tGen (c\<lparr>cycleCounter := cycleCounter c + 1\<rparr>)"
  have i2: "lanes_inv c2"
    unfolding c2_def using assms by (intro generateTraffic_lanes_inv) (simp add: lanes_inv_def)
  have f: "findNextGreenDirection rnd tSel c2 = (selected draws rnd tGen tSel c, c2)"
    using findNextGreenDirection_pair [of rnd tSel c2] by (simp add: selected_def c2_def)
  have len: "dir_index d < length (lanes c2)" for d
    using lanes_inv_nth(1) [OF i2] dir_index_less [of d] by simp
  have upd: "map direction ((lanes c2)[dir_index d := (lanes c2 ! dir_index d)\<lparr>vehicles := q\<rparr>])
           = [NORTH, EAST, SOUTH, WEST]" for d q
    using lanes_inv_update [OF i2, of d q] by (simp add: lane_of_def)
  show ?thesis
    unfolding processCycle_def Let_def c2_def [symmetric] f
    by (simp add: split_beta processVehicles_eq len lanes_inv_def lane_of_def upd)
qed

lemma runCycles_total:
  assumes "lanes_inv c" and "cycle_signal_inv (signal c)"
  shows "\<exists>c'. snd (runCycles draws rnd ts c) = Inr c' \<and> lanes_inv c'
           \<and> cycle_signal_inv (signal c')"
  using assms
proof (induction ts arbitrary: c)
  case Nil
  then show ?case by simp
next
  case (Cons t ts)
  obtain tGen tSel tDrain where t: "t = (tGen, tSel, tDrain)" by (cases t) auto
  from processCycle_total [OF Cons.prems(1), of draws rnd tGen tSel tDrain]
  obtain c' where c': "snd (processCycle draws rnd tGen tSel tDrain c) = Inr c'" "lanes_inv c'"
    by blast
  obtain ev where p: "processCycle draws rnd tGen tSel tDrain c = (ev, Inr c')"
    using c'(1) by (cases "processCycle draws rnd tGen tSel tDrain c") simp
  from processCycle_signal [OF c'(1)] Cons.prems(2) have "cycle_signal_inv (signal c')"
    by (simp add: cycle_signal_inv_step)
  from Cons.IH [OF c'(2) this] t p show ?case by (simp add: split_beta)
qed

lemma runCycles_signal_inv:
  assumes "signal_inv (signal c)" and "snd (runCycles draws rnd ts c) = Inr c'"
  shows "signal_inv (signal c')"
  using assms
proof (induction ts arbitrary: c)
  case Nil
  then show ?case by simp
next
  case (Cons t ts)
  obtain tGen tSel tDrain where t: "t = (tGen, tSel, tDrain)" by (cases t) auto
  obtain ev r where p: "processCycle draws rnd tGen tSel tDrain c = (ev, r)" by fastforce
  show ?case
  proof (cases r)
    case (Inl e)
    with t p Cons.prems(2) show ?thesis by simp
  next
    case (Inr c1)
    with p have "snd (processCycle draws rnd tGen tSel tDrain c) = Inr c1" by simp
    from processCycle_signal [OF this] Cons.prems(1)
    have "signal_inv (signal c1)"
      by (simp add: signal_inv_changeLight signal_inv_setYellow)
    moreover from t p Inr Cons.prems(2) have "snd (runCycles draws rnd ts c1) = Inr c'"
      by (simp add: split_beta)
    ultimately show ?thesis by (rule Cons.IH)
  qed
qed

text \<open>
  Claim C6. Take any number of cycles run from the initial controller, with any random
  draws and clock readings. In their trace, whenever the light of a direction turns from
  another colour to Red, the event before is a delay of \<open>yellowTime = 3\<close> seconds
  during which that light showed Yellow, and the light was Green until \<open>setYellow\<close>
  made it Yellow just before the delay. All the cycles complete, and in the controller
  \<open>c\<close> they leave, a next cycle with a green direction \<open>g\<close> goes: light of \<open>g\<close>
  Green; \<open>setYellow\<close> shows it Yellow; delay of 3 seconds; \<open>changeLight\<close> shows it
  Red (Green if \<open>g\<close> itself is selected again).
\<close>

theorem red_only_after_yellow_hold:
  "red_after_yellow_hold (lightStates new_TrafficSignal)
     (fst (runCycles draws rnd ts new_IntersectionController))
   \<and> (\<exists>c. snd (runCycles draws rnd ts new_IntersectionController) = Inr c
        \<and> (\<forall>g. currentGreenDirection (signal c) = int (dir_index g) \<longrightarrow>
              lightStates (signal c) ! dir_index g = GREEN
              \<and> (\<exists>tail. fst (processCycle draws rnd tGen tSel tDrain c) =
                    Lights (lightStates (setYellow (signal c))) # Sleep (seconds 3)
                    # Lights (lightStates (changeLight (selected draws rnd tGen tSel c)
                                            (setYellow (signal c)))) # tail)
              \<and> lightStates (setYellow (signal c)) ! dir_index g = YELLOW
              \<and> lightStates (changeLight (selected draws rnd tGen tSel c)
                               (setYellow (signal c))) ! dir_index g
                  = (if selected draws rnd tGen tSel c = g then GREEN else RED)))"
proof
  have "cycle_signal_inv (signal new_IntersectionController)"
    by (simp add: new_IntersectionController_def cycle_signal_inv_new)
  from runCycles_trace [OF this, of draws rnd ts]
  show "red_after_yellow_hold (lightStates new_TrafficSignal)
     (fst (runCycles draws rnd ts new_IntersectionController))"
    by (simp add: new_IntersectionController_def)
next
  have "cycle_signal_inv (signal new_IntersectionController)"
    by (simp add: new_IntersectionController_def cycle_signal_inv_new)
  from runCycles_total [OF lanes_inv_new this, of draws rnd ts]
  obtain c where c: "snd (runCycles draws rnd ts new_IntersectionController) = Inr c"
    "cycle_signal_inv (signal c)" by blast
  from c(2) processCycle_yellow_hold [of c _ draws rnd tGen tSel tDrain]
  have "\<forall>g. currentGreenDirection (signal c) = int (dir_index g) \<longrightarrow>
              lightStates (signal c) ! dir_index g = GREEN
              \<and> (\<exists>tail. fst (processCycle draws rnd tGen tSel tDrain c) =
                    Lights (lightStates (setYellow (signal c))) # Sleep (seconds 3)
                    # Lights (lightStates (changeLight (selected draws rnd tGen tSel c)
                                            (setYellow (signal c)))) # tail)
              \<and> lightStates (setYellow (signal c)) ! dir_index g = YELLOW
              \<and> lightStates (changeLight (selected draws rnd tGen tSel c)
                               (setYellow (signal c))) ! dir_index g
                  = (if selected draws rnd tGen tSel c = g then GREEN else RED)"
    by blast
  with c(1) show "\<exists>c. snd (runCycles draws rnd ts new_IntersectionController) = Inr c
        \<and> (\<forall>g. currentGreenDirection (signal c) = int (dir_index g) \<longrightarrow>
              lightStates (signal c) ! dir_index g = GREEN
              \<and> (\<exists>tail. fst (processCycle draws rnd tGen tSel tDrain c) =
                    Lights (lightStates (setYellow (signal c))) # Sleep (seconds 3)
                    # Lights (lightStates (changeLight (selected draws rnd tGen tSel c)
                                            (setYellow (signal c)))) # tail)
              \<and> lightStates (setYellow (signal c)) ! dir_index g = YELLOW
              \<and> lightStates (changeLight (selected draws rnd tGen tSel c)
                               (setYellow (signal c))) ! dir_index g
                  = (if selected draws rnd tGen tSel c = g then GREEN else RED))"
    by blast
qed

theorem red_only_after_yellow_hold_witness:
  "fst (runCycles (\<lambda>n. if n = 15 then 9 else 1) id [(0, 0, 0), (0, 0, 0)]
          new_IntersectionController) =
     [Lights [GREEN, RED, RED, RED], Sleep (milliseconds 500),
      Lights [YELLOW, RED, RED, RED], Sleep (seconds 3), Lights [RED, GREEN, RED, RED],
      Sleep (milliseconds 500)]
   \<and> red_after_yellow_hold (lightStates new_TrafficSignal)
        (fst (runCycles (\<lambda>n. if n = 15 then 9 else 1) id [(0, 0, 0), (0, 0, 0)]
                new_IntersectionController))"
proof -
  have "fst (runCycles (\<lambda>n. if n = 15 then 9 else 1) id [(0, 0, 0), (0, 0, 0)]
          new_IntersectionController) =
     [Lights [GREEN, RED, RED, RED], Sleep (milliseconds 500),
      Lights [YELLOW, RED, RED, RED], Sleep (seconds 3), Lights [RED, GREEN, RED, RED],
      Sleep (milliseconds 500)]"
    by code_simp
  with red_only_after_yellow_hold
    [of "\<lambda>n. if n = 15 then 9 else 1" id "[(0, 0, 0), (0, 0, 0)]"]
  show ?thesis by simp
qed

end
